theory Spec2Isabelle
  imports Complex_Main "HOL-Library.Log_Nat" "HOL-Library.Multiset"
begin

section \<open>JavaScript values\<close>

subsection \<open>Numbers\<close>

text \<open>
  A JavaScript number is an IEEE-754 binary64 value. The finite ones are rationals, and
  every arithmetic operator computes the exact result and rounds it to the nearest value
  with a 53-bit significand, ties to the even significand. \<open>binade x\<close> is the exponent
  \<open>e\<close> with \<open>2^e \<le> x < 2^(e+1)\<close>, found from the bit lengths of numerator and
  denominator; \<open>fl\<close> is the rounding. The exponent range (subnormals, overflow to
  Infinity) is not modelled: the numbers of this program are vote counts, their quotients
  and percentages.
\<close>

type_synonym number = rat

definition round_ties_even :: "rat \<Rightarrow> int" where
  "round_ties_even x =
     (let f = \<lfloor>x\<rfloor>; d = x - of_int f
      in if d < 1 / 2 then f else if 1 / 2 < d then f + 1 else if even f then f else f + 1)"

definition binade :: "rat \<Rightarrow> int" where
  "binade x =
     (let (a, b) = quotient_of x;
          e0 = int (floorlog 2 (nat a)) - int (floorlog 2 (nat b))
      in if 2 powi e0 \<le> x then e0 else e0 - 1)"

definition fl :: "rat \<Rightarrow> number" where
  "fl x =
     (if x = 0 then 0
      else let u = 2 powi (binade \<bar>x\<bar> - 52)
           in sgn x * of_int (round_ties_even (\<bar>x\<bar> / u)) * u)"

text \<open>The operators \<open>+\<close>, \<open>/\<close> and \<open>*\<close> on numbers.\<close>

definition js_add :: "number \<Rightarrow> number \<Rightarrow> number" where
  "js_add a b = fl (a + b)"

definition js_div :: "number \<Rightarrow> number \<Rightarrow> number" where
  "js_div a b = fl (a / b)"

definition js_mul :: "number \<Rightarrow> number \<Rightarrow> number" where
  "js_mul a b = fl (a * b)"

text \<open>
  \<open>Math.round\<close> returns the integer nearest to its argument, a tie going to the larger
  one; the result is exact.
\<close>

definition Math_round :: "number \<Rightarrow> number" where
  "Math_round x = of_int \<lfloor>x + 1 / 2\<rfloor>"

text \<open>A row count read from the store arrives as a number.\<close>

definition number_of_count :: "nat \<Rightarrow> number" where
  "number_of_count n = fl (of_nat n)"

subsection \<open>JSON values and truthiness\<close>

datatype json =
    JNull
  | JBool bool
  | JNum number
  | JStr string
  | JArr "json list"
  | JObj "(string \<times> json) list"

text \<open>
  Reading a property of an object gives \<open>undefined\<close> (here \<open>None\<close>) when the key is
  absent. \<open>falsy\<close> is the test \<open>!v\<close>.
\<close>

fun falsy :: "json option \<Rightarrow> bool" where
  "falsy None = True"
| "falsy (Some JNull) = True"
| "falsy (Some (JBool b)) = (\<not> b)"
| "falsy (Some (JNum x)) = (x = 0)"
| "falsy (Some (JStr s)) = (s = [])"
| "falsy (Some (JArr xs)) = False"
| "falsy (Some (JObj kvs)) = False"

definition keys :: "json \<Rightarrow> string list" where
  "keys j = (case j of JObj kvs \<Rightarrow> map fst kvs | _ \<Rightarrow> [])"

section \<open>The ballot store\<close>

text \<open>
  The tables the controllers query through Prisma. Each table is the list of its rows in
  insertion order; a relation is followed by looking the foreign key up. A query that
  asks for no ordering gets the rows in the order that the store chooses, which need not
  be the order of insertion. For the option table that choice is a component of the
  store: \<open>row_place\<close> gives, for the id of a row, its place in the order of the store.
\<close>

record user =
  user_id :: string
  user_name :: string
  user_email :: string

record poll =
  poll_id :: string
  poll_question :: string
  poll_isPublished :: bool
  poll_userId :: string

record pollOption =
  option_id :: string
  option_text :: string
  option_pollId :: string

record vote =
  vote_id :: string
  vote_createdAt :: string
  vote_userId :: string
  vote_pollOptionId :: string

record store =
  users :: "user list"
  polls :: "poll list"
  pollOptions :: "pollOption list"
  votes :: "vote list"
  row_place :: "string \<Rightarrow> nat"

text \<open>
  What a query can throw. A known request error carries a code (\<open>P2002\<close>: a unique
  constraint failed, \<open>P2003\<close>: a foreign key failed); every other error (an argument of
  the wrong type, a required relation with no row) carries none.
\<close>

datatype exn = PrismaKnownRequestError string | OtherError

definition find_user :: "store \<Rightarrow> string \<Rightarrow> user option" where
  "find_user s uid = find (\<lambda>u. user_id u = uid) (users s)"

definition find_poll :: "store \<Rightarrow> string \<Rightarrow> poll option" where
  "find_poll s pid = find (\<lambda>p. poll_id p = pid) (polls s)"

definition find_option :: "store \<Rightarrow> string \<Rightarrow> pollOption option" where
  "find_option s oid = find (\<lambda>opt. option_id opt = oid) (pollOptions s)"

text \<open>
  \<open>prisma.pollOption.findUnique({where: {id}, include: {poll}})\<close>: the \<open>id\<close> column is
  a string, so any other argument is refused; the parent poll is a required relation.
\<close>

definition pollOption_findUnique :: "store \<Rightarrow> json \<Rightarrow> exn + (pollOption \<times> poll) option" where
  "pollOption_findUnique s idv =
     (case idv of
        JStr oid \<Rightarrow>
          (case find_option s oid of
             None \<Rightarrow> Inr None
           | Some opt \<Rightarrow>
               (case find_poll s (option_pollId opt) of
                  None \<Rightarrow> Inl OtherError
                | Some p \<Rightarrow> Inr (Some (opt, p))))
      | _ \<Rightarrow> Inl OtherError)"

text \<open>The poll a vote belongs to, through its option.\<close>

definition vote_poll :: "store \<Rightarrow> vote \<Rightarrow> string option" where
  "vote_poll s v = map_option option_pollId (find_option s (vote_pollOptionId v))"

text \<open>
  \<open>prisma.vote.findFirst({where: {userId, pollOption: {pollId}}})\<close>.
\<close>

definition vote_findFirst :: "store \<Rightarrow> string \<Rightarrow> string \<Rightarrow> vote option" where
  "vote_findFirst s uid pid =
     find (\<lambda>v. vote_userId v = uid \<and> vote_poll s v = Some pid) (votes s)"

text \<open>
  The uniqueness constraint of the vote table is declared in the Prisma schema, which is
  not among the sources; it is a parameter of the model: \<open>uq s v v'\<close> holds when the rows
  \<open>v\<close> and \<open>v'\<close> cannot both be in the table.
\<close>

type_synonym uniqueness = "store \<Rightarrow> vote \<Rightarrow> vote \<Rightarrow> bool"

text \<open>
  Modelled from the spec: the schema's compound uniqueness constraint on the vote table,
  which the spec states as one vote per voter and poll, the poll derived from the option.
\<close>

definition unique_voter_poll :: uniqueness where
  "unique_voter_poll s v v' =
     (vote_userId v = vote_userId v' \<and> vote_poll s v = vote_poll s v')"

text \<open>
  The constraint that the columns of the inserted row (\<open>userId\<close>, \<open>pollOptionId\<close>) and
  the message of the \<open>P2002\<close> handler suggest: one vote per voter and option.
\<close>

definition unique_voter_option :: uniqueness where
  "unique_voter_option s v v' =
     (vote_userId v = vote_userId v' \<and> vote_pollOptionId v = vote_pollOptionId v')"

text \<open>
  \<open>prisma.vote.create({data: {userId, pollOptionId}, include: {user, pollOption: {include:
  {poll}}}})\<close>. The store generates the row's \<open>id\<close> and \<open>createdAt\<close>; the model takes
  them as arguments. The insert fails with \<open>P2002\<close> on the uniqueness constraint and with
  \<open>P2003\<close> on a foreign key; otherwise the row is appended and returned with its
  relations.
\<close>

record created_vote =
  cv_vote :: vote
  cv_user :: user
  cv_option :: pollOption
  cv_poll :: poll

definition vote_create ::
  "uniqueness \<Rightarrow> store \<Rightarrow> string \<Rightarrow> string \<Rightarrow> string \<Rightarrow> json \<Rightarrow> exn + (created_vote \<times> store)" where
  "vote_create uq s new_id now uid idv =
     (case idv of
        JStr oid \<Rightarrow>
          (let v = \<lparr>vote_id = new_id, vote_createdAt = now, vote_userId = uid,
                     vote_pollOptionId = oid\<rparr>
           in if list_ex (uq s v) (votes s) then Inl (PrismaKnownRequestError ''P2002'')
              else
                (case (find_user s uid, find_option s oid) of
                   (Some u, Some opt) \<Rightarrow>
                     (case find_poll s (option_pollId opt) of
                        None \<Rightarrow> Inl OtherError
                      | Some p \<Rightarrow>
                          Inr (\<lparr>cv_vote = v, cv_user = u, cv_option = opt, cv_poll = p\<rparr>,
                               s\<lparr>votes := votes s @ [v]\<rparr>))
                 | _ \<Rightarrow> Inl (PrismaKnownRequestError ''P2003'')))
      | _ \<Rightarrow> Inl OtherError)"

section \<open>The tally\<close>

record option_result =
  or_id :: string
  or_text :: string
  or_voteCount :: number
  or_percentage :: number

record poll_results =
  pr_pollId :: string
  pr_question :: string
  pr_totalVotes :: number
  pr_options :: "option_result list"

text \<open>
  \<open>prisma.poll.findUnique({where: {id}, include: {options: {include: {_count: {select:
  {votes: true}}}}}})\<close>: the poll with its options, each with the number of votes that
  reference it. The query has no \<open>orderBy\<close>, so the options come in the order of the
  store: by ascending \<open>row_place\<close>, rows of equal place in insertion order.
\<close>

definition count_votes :: "store \<Rightarrow> string \<Rightarrow> nat" where
  "count_votes s oid = length (filter (\<lambda>v. vote_pollOptionId v = oid) (votes s))"

definition poll_options :: "store \<Rightarrow> string \<Rightarrow> pollOption list" where
  "poll_options s pid =
     sort_key (\<lambda>opt. row_place s (option_id opt))
       (filter (\<lambda>opt. option_pollId opt = pid) (pollOptions s))"

text \<open>
  The options of a poll in the order of their creation: \<open>createPoll\<close> inserts them with
  one \<open>createMany\<close>, in the order of the request's \<open>options\<close> array.
\<close>

definition options_created :: "store \<Rightarrow> string \<Rightarrow> pollOption list" where
  "options_created s pid = filter (\<lambda>opt. option_pollId opt = pid) (pollOptions s)"

definition poll_findUnique_counts :: "store \<Rightarrow> string \<Rightarrow> (poll \<times> (pollOption \<times> number) list) option" where
  "poll_findUnique_counts s pid =
     map_option
       (\<lambda>p. (p, map (\<lambda>opt. (opt, number_of_count (count_votes s (option_id opt))))
                   (poll_options s pid)))
       (find_poll s pid)"

text \<open>The body of \<open>_getPollResultsInternal\<close> after the query.\<close>

definition percentage :: "number \<Rightarrow> number \<Rightarrow> number" where
  "percentage c totalVotes =
     (if 0 < totalVotes then Math_round (js_mul (js_div c totalVotes) 100) else 0)"

definition results_of :: "poll \<Rightarrow> (pollOption \<times> number) list \<Rightarrow> poll_results" where
  "results_of p opts =
     (let totalVotes = foldl (\<lambda>sum oc. js_add sum (snd oc)) 0 opts
      in \<lparr>pr_pollId = poll_id p,
          pr_question = poll_question p,
          pr_totalVotes = totalVotes,
          pr_options =
            map (\<lambda>oc. \<lparr>or_id = option_id (fst oc), or_text = option_text (fst oc),
                        or_voteCount = snd oc,
                        or_percentage = percentage (snd oc) totalVotes\<rparr>) opts\<rparr>)"

definition getPollResultsInternal :: "store \<Rightarrow> string \<Rightarrow> poll_results option" where
  "getPollResultsInternal s pollId =
     (case poll_findUnique_counts s pollId of
        None \<Rightarrow> None
      | Some (p, opts) \<Rightarrow> Some (results_of p opts))"

text \<open>The results as the JSON value that is sent; \<open>null\<close> when there are none.\<close>

definition json_of_option_result :: "option_result \<Rightarrow> json" where
  "json_of_option_result r =
     JObj [(''id'', JStr (or_id r)), (''text'', JStr (or_text r)),
           (''voteCount'', JNum (or_voteCount r)), (''percentage'', JNum (or_percentage r))]"

definition json_of_results :: "poll_results option \<Rightarrow> json" where
  "json_of_results r =
     (case r of
        None \<Rightarrow> JNull
      | Some t \<Rightarrow>
          JObj [(''pollId'', JStr (pr_pollId t)), (''question'', JStr (pr_question t)),
                (''totalVotes'', JNum (pr_totalVotes t)),
                (''options'', JArr (map json_of_option_result (pr_options t)))])"

text \<open>
  The tally of a poll, written out as the JSON value that the spec describes: the poll's
  id and question, the sum of the counts, and for each option that the store returns its
  id, text, count and percentage. These are abbreviations: a statement that mentions them
  is a statement about the value written out here.
\<close>

abbreviation total_votes :: "store \<Rightarrow> string \<Rightarrow> number" where
  "total_votes s pid \<equiv>
     foldl (\<lambda>sum opt. js_add sum (number_of_count (count_votes s (option_id opt)))) 0
       (poll_options s pid)"

abbreviation tally_json :: "store \<Rightarrow> poll \<Rightarrow> json" where
  "tally_json s p \<equiv>
     JObj [(''pollId'', JStr (poll_id p)), (''question'', JStr (poll_question p)),
           (''totalVotes'', JNum (total_votes s (poll_id p))),
           (''options'',
            JArr (map (\<lambda>opt.
              JObj [(''id'', JStr (option_id opt)), (''text'', JStr (option_text opt)),
                    (''voteCount'', JNum (number_of_count (count_votes s (option_id opt)))),
                    (''percentage'',
                     JNum (if 0 < total_votes s (poll_id p)
                           then Math_round
                                  (js_mul (js_div (number_of_count (count_votes s (option_id opt)))
                                                  (total_votes s (poll_id p))) 100)
                           else 0))])
              (poll_options s (poll_id p))))]"

section \<open>Rooms and broadcasts\<close>

text \<open>
  The rooms of the server are kept by Socket.IO's adapter, which is not part of the
  sources: the spec's Subscription Registry. A room is the set of the connections that
  joined it, here a list without repetition in joining order.
\<close>

type_synonym registry = "string \<Rightarrow> string list"

text \<open>
  Modelled from the spec: \<open>join(pollId, connection)\<close> of the Subscription Registry
  (\<open>socket.join\<close>, whose code is missing): the connection becomes a member of the
  topic; joining a topic twice is idempotent.
\<close>

definition socket_join :: "string \<Rightarrow> string \<Rightarrow> registry \<Rightarrow> registry" where
  "socket_join sid room reg =
     (if sid \<in> set (reg room) then reg else reg(room := reg room @ [sid]))"

text \<open>
  Modelled from the spec: \<open>leave(pollId, connection)\<close> of the Subscription Registry
  (\<open>socket.leave\<close>, whose code is missing): the connection is no member of the topic
  afterwards; leaving a topic one never joined is a no-op.
\<close>

definition socket_leave :: "string \<Rightarrow> string \<Rightarrow> registry \<Rightarrow> registry" where
  "socket_leave sid room reg = reg(room := removeAll sid (reg room))"

text \<open>
  Modelled from the spec: the implicit \<open>onDisconnect(connection)\<close> of the Subscription
  Registry (Socket.IO's own clean-up, whose code is missing), which removes the connection
  from every poll it had joined.
\<close>

definition socket_leave_all :: "string \<Rightarrow> registry \<Rightarrow> registry" where
  "socket_leave_all sid reg = (\<lambda>room. removeAll sid (reg room))"

text \<open>
  The state of the server process: the store, the rooms, the log of the broadcasts made
  (room, event, payload) and the log of the messages delivered (connection, event,
  payload).
\<close>

record world =
  db :: store
  rooms :: registry
  emitted :: "(string \<times> string \<times> json) list"
  delivered :: "(string \<times> string \<times> json) list"

text \<open>
  Modelled from the spec: \<open>publish(pollId, tally)\<close> of the Broadcast Dispatcher (the
  delivery behind \<open>io.to(room).emit\<close>, whose code is missing), which delivers the
  payload to every connection that is a member of the topic at the moment of the call.
\<close>

definition deliveries :: "string \<Rightarrow> string \<Rightarrow> json \<Rightarrow> world \<Rightarrow> (string \<times> string \<times> json) list" where
  "deliveries room ev payload w = map (\<lambda>sid. (sid, ev, payload)) (rooms w room)"

definition emit_to_room :: "string \<Rightarrow> string \<Rightarrow> json \<Rightarrow> world \<Rightarrow> world" where
  "emit_to_room room ev payload w =
     w\<lparr>emitted := emitted w @ [(room, ev, payload)],
       delivered := delivered w @ deliveries room ev payload w\<rparr>"

text \<open>The room of a poll: the template \<open>poll-${pollId}\<close>.\<close>

definition poll_room :: "string \<Rightarrow> string" where
  "poll_room pollId = ''poll-'' @ pollId"

subsection \<open>The socket handlers\<close>

text \<open>
  \<open>handleConnection\<close> greets the connection and registers three handlers. The poll
  identifier of \<open>joinPoll\<close> and \<open>leavePoll\<close> is taken as a string. The \<open>disconnect\<close>
  handler only writes to the console.
\<close>

datatype socket_event = JoinPoll string | LeavePoll string | DisconnectEvent

definition handleConnection :: "string \<Rightarrow> user \<Rightarrow> world \<Rightarrow> world" where
  "handleConnection sid u w =
     w\<lparr>delivered := delivered w @
        [(sid, ''connected'',
          JObj [(''message'', JStr ''Connected to real-time polling server''),
                (''user'', JObj [(''id'', JStr (user_id u)), (''name'', JStr (user_name u)),
                                 (''email'', JStr (user_email u))])])]\<rparr>"

fun on_event :: "string \<Rightarrow> socket_event \<Rightarrow> world \<Rightarrow> world" where
  "on_event sid (JoinPoll pollId) w = w\<lparr>rooms := socket_join sid (poll_room pollId) (rooms w)\<rparr>"
| "on_event sid (LeavePoll pollId) w = w\<lparr>rooms := socket_leave sid (poll_room pollId) (rooms w)\<rparr>"
| "on_event sid DisconnectEvent w = w"

text \<open>
  A connection that closes: the registry drops it from its rooms, then the \<open>disconnect\<close>
  handler runs.
\<close>

definition disconnect :: "string \<Rightarrow> world \<Rightarrow> world" where
  "disconnect sid w = on_event sid DisconnectEvent (w\<lparr>rooms := socket_leave_all sid (rooms w)\<rparr>)"

text \<open>What a client of the server does on a connection.\<close>

datatype socket_action = Emits socket_event | Closes

fun socket_step :: "string \<times> socket_action \<Rightarrow> world \<Rightarrow> world" where
  "socket_step (sid, Emits ev) w = on_event sid ev w"
| "socket_step (sid, Closes) w = disconnect sid w"

definition socket_steps :: "(string \<times> socket_action) list \<Rightarrow> world \<Rightarrow> world" where
  "socket_steps acts w = foldl (\<lambda>w' a. socket_step a w') w acts"

definition getOnlineUsersInPoll :: "world \<Rightarrow> string \<Rightarrow> nat" where
  "getOnlineUsersInPoll w pollId = length (rooms w (poll_room pollId))"

text \<open>The copies of an event that a connection has received.\<close>

definition copies :: "string \<Rightarrow> (string \<times> string \<times> json) list \<Rightarrow> nat" where
  "copies sid msgs = length (filter (\<lambda>m. fst m = sid) msgs)"

section \<open>The vote controller\<close>

text \<open>
  A request: the identity that the authentication middleware attached, the parsed body
  (an object, as the list of its properties, each key once), and the \<open>id\<close> and
  \<open>createdAt\<close> that the store will generate should the request insert a row. A
  response: the status and the JSON body.
\<close>

record request =
  req_user_id :: string
  req_body :: "(string \<times> json) list"
  req_new_id :: string
  req_now :: string

datatype response = Response (status: nat) (body: json)

definition error_body :: "string \<Rightarrow> json" where
  "error_body msg = JObj [(''error'', JStr msg)]"

text \<open>The \<open>catch\<close> block of \<open>submitVote\<close>.\<close>

definition on_catch :: "exn \<Rightarrow> response" where
  "on_catch e =
     (case e of
        PrismaKnownRequestError c \<Rightarrow>
          if c = ''P2002'' then Response 409 (error_body ''You have already voted for this option'')
          else Response 500 (error_body ''Internal server error'')
      | OtherError \<Rightarrow> Response 500 (error_body ''Internal server error''))"

definition json_of_created_vote :: "created_vote \<Rightarrow> json" where
  "json_of_created_vote c =
     JObj [(''id'', JStr (vote_id (cv_vote c))),
           (''createdAt'', JStr (vote_createdAt (cv_vote c))),
           (''user'', JObj [(''id'', JStr (user_id (cv_user c))),
                            (''name'', JStr (user_name (cv_user c)))]),
           (''pollOption'',
              JObj [(''id'', JStr (option_id (cv_option c))),
                    (''text'', JStr (option_text (cv_option c))),
                    (''pollId'', JStr (option_pollId (cv_option c))),
                    (''poll'', JObj [(''id'', JStr (poll_id (cv_poll c))),
                                     (''question'', JStr (poll_question (cv_poll c)))])])]"

definition accepted_response :: "created_vote \<Rightarrow> response" where
  "accepted_response c =
     Response 201 (JObj [(''message'', JStr ''Vote submitted successfully''),
                         (''vote'', json_of_created_vote c)])"

definition pollUpdate_payload :: "string \<Rightarrow> poll_results option \<Rightarrow> json" where
  "pollUpdate_payload pollId results =
     JObj [(''pollId'', JStr pollId), (''results'', json_of_results results)]"

text \<open>\<open>submitVote\<close>, run from its first line to its response with nothing in between.\<close>

definition submitVote :: "uniqueness \<Rightarrow> request \<Rightarrow> world \<Rightarrow> response \<times> world" where
  "submitVote uq req w =
     (let pollOptionId = map_of (req_body req) ''pollOptionId''
      in if falsy pollOptionId then (Response 400 (error_body ''Poll option ID is required''), w)
         else
           (case pollOption_findUnique (db w) (the pollOptionId) of
              Inl e \<Rightarrow> (on_catch e, w)
            | Inr None \<Rightarrow> (Response 404 (error_body ''Poll option not found''), w)
            | Inr (Some (pollOption, p)) \<Rightarrow>
                if \<not> poll_isPublished p
                then (Response 403 (error_body ''Cannot vote on unpublished poll''), w)
                else
                  (case vote_findFirst (db w) (req_user_id req) (poll_id p) of
                     Some existingVoteInPoll \<Rightarrow>
                       (Response 409 (error_body ''You have already voted in this poll''), w)
                   | None \<Rightarrow>
                       (case vote_create uq (db w) (req_new_id req) (req_now req)
                               (req_user_id req) (the pollOptionId) of
                          Inl e \<Rightarrow> (on_catch e, w)
                        | Inr (v, s') \<Rightarrow>
                            (let w1 = w\<lparr>db := s'\<rparr>;
                                 updatedPollResults = getPollResultsInternal (db w1) (poll_id p);
                                 w2 = emit_to_room (poll_room (poll_id p)) ''pollUpdate''
                                        (pollUpdate_payload (poll_id p) updatedPollResults) w1
                             in (accepted_response v, w2))))))"

subsection \<open>Requests in flight\<close>

text \<open>
  \<open>submitVote\<close> is an async function: it gives up control at each \<open>await\<close>, and the
  handlers of other requests run in between. Each of its four queries is one atomic
  operation on the store, so a request in flight is at one of four points, or done.
  \<open>advance\<close> runs the pending query and the code up to the next query (or to the
  response).
\<close>

datatype pc =
    AtFindOption
  | AtFindVote pollOption poll
  | AtCreate pollOption poll
  | AtResults created_vote pollOption poll
  | Done response

fun advance :: "uniqueness \<Rightarrow> request \<Rightarrow> pc \<Rightarrow> world \<Rightarrow> pc \<times> world" where
  "advance uq req AtFindOption w =
     (let pollOptionId = map_of (req_body req) ''pollOptionId''
      in if falsy pollOptionId
         then (Done (Response 400 (error_body ''Poll option ID is required'')), w)
         else
           (case pollOption_findUnique (db w) (the pollOptionId) of
              Inl e \<Rightarrow> (Done (on_catch e), w)
            | Inr None \<Rightarrow> (Done (Response 404 (error_body ''Poll option not found'')), w)
            | Inr (Some (pollOption, p)) \<Rightarrow>
                if \<not> poll_isPublished p
                then (Done (Response 403 (error_body ''Cannot vote on unpublished poll'')), w)
                else (AtFindVote pollOption p, w)))"
| "advance uq req (AtFindVote pollOption p) w =
     (case vote_findFirst (db w) (req_user_id req) (poll_id p) of
        Some existingVoteInPoll \<Rightarrow>
          (Done (Response 409 (error_body ''You have already voted in this poll'')), w)
      | None \<Rightarrow> (AtCreate pollOption p, w))"
| "advance uq req (AtCreate pollOption p) w =
     (case vote_create uq (db w) (req_new_id req) (req_now req) (req_user_id req)
             (the (map_of (req_body req) ''pollOptionId'')) of
        Inl e \<Rightarrow> (Done (on_catch e), w)
      | Inr (v, s') \<Rightarrow> (AtResults v pollOption p, w\<lparr>db := s'\<rparr>))"
| "advance uq req (AtResults v pollOption p) w =
     (let updatedPollResults = getPollResultsInternal (db w) (poll_id p);
          w2 = emit_to_room (poll_room (poll_id p)) ''pollUpdate''
                 (pollUpdate_payload (poll_id p) updatedPollResults) w
      in (Done (accepted_response v), w2))"
| "advance uq req (Done r) w = (Done r, w)"

text \<open>
  Several requests in flight over one world. A schedule names, turn by turn, the request
  whose pending query completes next; every interleaving of the requests is the run of
  some schedule.
\<close>

type_synonym config = "world \<times> (request \<times> pc) list"

definition turn :: "uniqueness \<Rightarrow> config \<Rightarrow> nat \<Rightarrow> config" where
  "turn uq c i =
     (let w = fst c; ps = snd c
      in if i < length ps
         then (let st = advance uq (fst (ps ! i)) (snd (ps ! i)) w
               in (snd st, ps[i := (fst (ps ! i), fst st)]))
         else c)"

definition run :: "uniqueness \<Rightarrow> nat list \<Rightarrow> config \<Rightarrow> config" where
  "run uq sched c = foldl (turn uq) c sched"

definition start :: "world \<Rightarrow> request list \<Rightarrow> config" where
  "start w reqs = (w, map (\<lambda>r. (r, AtFindOption)) reqs)"

fun is_done :: "pc \<Rightarrow> bool" where
  "is_done (Done r) = True"
| "is_done _ = False"

definition all_done :: "config \<Rightarrow> bool" where
  "all_done c = list_all (\<lambda>p. is_done (snd p)) (snd c)"

fun response_of :: "pc \<Rightarrow> response option" where
  "response_of (Done r) = Some r"
| "response_of _ = None"

definition responses :: "config \<Rightarrow> response list" where
  "responses c = List.map_filter (\<lambda>p. response_of (snd p)) (snd c)"

definition count_status :: "nat \<Rightarrow> response list \<Rightarrow> nat" where
  "count_status n rs = length (filter (\<lambda>r. status r = n) rs)"

text \<open>
  A voter has voted in a poll when the store holds a vote of the voter for an option of
  the poll. A request targets a poll for a voter when it carries the voter's identity and
  the id, a non-empty string, of an option of that poll.
\<close>

definition has_voted :: "store \<Rightarrow> string \<Rightarrow> string \<Rightarrow> bool" where
  "has_voted s uid pid = list_ex (\<lambda>v. vote_userId v = uid \<and> vote_poll s v = Some pid) (votes s)"

definition targets :: "store \<Rightarrow> string \<Rightarrow> string \<Rightarrow> request \<Rightarrow> bool" where
  "targets s uid pid req =
     (req_user_id req = uid \<and>
      (case map_of (req_body req) ''pollOptionId'' of
         Some (JStr oid) \<Rightarrow>
           oid \<noteq> [] \<and> map_option option_pollId (find_option s oid) = Some pid
       | _ \<Rightarrow> False))"

text \<open>
  How far a request in flight has come, whether its vote has been inserted, and whether
  it has been answered with a conflict.
\<close>

fun rank :: "pc \<Rightarrow> nat" where
  "rank AtFindOption = 0"
| "rank (AtFindVote opt p) = 1"
| "rank (AtCreate opt p) = 2"
| "rank (AtResults v opt p) = 3"
| "rank (Done r) = 4"

fun inserted :: "pc \<Rightarrow> bool" where
  "inserted (AtResults v opt p) = True"
| "inserted (Done r) = (status r = 201)"
| "inserted _ = False"

fun conflicted :: "pc \<Rightarrow> bool" where
  "conflicted (Done r) = (status r = 409)"
| "conflicted _ = False"

fun on_poll :: "string \<Rightarrow> pc \<Rightarrow> bool" where
  "on_poll pid AtFindOption = True"
| "on_poll pid (AtFindVote opt p) = (poll_id p = pid)"
| "on_poll pid (AtCreate opt p) = (poll_id p = pid)"
| "on_poll pid (AtResults v opt p) = (poll_id p = pid)"
| "on_poll pid (Done r) = (status r = 201 \<or> status r = 409)"

text \<open>
  The invariant of a set of requests of one voter on one poll, in flight over a store
  that was \<open>s0\<close> when they started: the tables of users, polls and options are those of
  \<open>s0\<close>; every request targets the poll and is at a point of its code for that poll; a
  vote of the voter that \<open>s0\<close> held is still there; the requests whose insert succeeded
  are none if the voter had voted in \<open>s0\<close>, and otherwise one exactly when the store
  holds a vote of the voter in the poll; the store has grown by one row per such request;
  and a request was answered with a conflict only if the store holds such a vote.
\<close>

definition same_tables :: "store \<Rightarrow> store \<Rightarrow> bool" where
  "same_tables s0 s =
     (users s = users s0 \<and> polls s = polls s0 \<and> pollOptions s = pollOptions s0)"

definition in_flight_ok :: "store \<Rightarrow> string \<Rightarrow> string \<Rightarrow> config \<Rightarrow> bool" where
  "in_flight_ok s0 uid pid c =
     (same_tables s0 (db (fst c)) \<and>
      list_all (\<lambda>p. targets s0 uid pid (fst p) \<and> on_poll pid (snd p)) (snd c) \<and>
      (has_voted s0 uid pid \<longrightarrow> has_voted (db (fst c)) uid pid) \<and>
      length (filter inserted (map snd (snd c))) =
        (if has_voted s0 uid pid then 0 else if has_voted (db (fst c)) uid pid then 1 else 0) \<and>
      length (votes (db (fst c))) =
        length (votes s0) + length (filter inserted (map snd (snd c))) \<and>
      (list_ex conflicted (map snd (snd c)) \<longrightarrow> has_voted (db (fst c)) uid pid))"

text \<open>
  What a request in flight has found in the store by the time it is at a point of its
  code: the option that its body names, the poll of that option and, once the insert has
  returned, its own vote for that option.
\<close>

fun established :: "store \<Rightarrow> request \<Rightarrow> pc \<Rightarrow> bool" where
  "established s req (AtFindVote opt p) =
     (map_of (req_body req) ''pollOptionId'' = Some (JStr (option_id opt)) \<and>
      find_option s (option_id opt) = Some opt \<and> find_poll s (option_pollId opt) = Some p)"
| "established s req (AtCreate opt p) =
     (map_of (req_body req) ''pollOptionId'' = Some (JStr (option_id opt)) \<and>
      find_option s (option_id opt) = Some opt \<and> find_poll s (option_pollId opt) = Some p)"
| "established s req (AtResults v opt p) =
     (map_of (req_body req) ''pollOptionId'' = Some (JStr (option_id opt)) \<and>
      find_option s (option_id opt) = Some opt \<and> find_poll s (option_pollId opt) = Some p \<and>
      cv_vote v \<in> set (votes s) \<and> vote_userId (cv_vote v) = req_user_id req \<and>
      vote_pollOptionId (cv_vote v) = option_id opt)"
| "established s req AtFindOption = True"
| "established s req (Done r) = True"

text \<open>
  The invariant of any requests in flight over a store that was \<open>s0\<close> when they
  started: the tables of users, polls and options are those of \<open>s0\<close>, the requests are
  the ones that started, and each has found what its point in the code says.
\<close>

definition tallies_ok :: "store \<Rightarrow> request list \<Rightarrow> config \<Rightarrow> bool" where
  "tallies_ok s0 reqs c =
     (same_tables s0 (db (fst c)) \<and> map fst (snd c) = reqs \<and>
      list_all (\<lambda>p. established (db (fst c)) (fst p) (snd p)) (snd c))"

subsection \<open>The results endpoint\<close>

record results_request =
  rr_user_id :: string
  rr_pollId :: string

definition getPollResults :: "results_request \<Rightarrow> world \<Rightarrow> response \<times> world" where
  "getPollResults req w =
     (case getPollResultsInternal (db w) (rr_pollId req) of
        None \<Rightarrow> (Response 404 (error_body ''Poll not found''), w)
      | Some results \<Rightarrow> (Response 200 (JObj [(''results'', json_of_results (Some results))]), w))"

section \<open>Example stores\<close>

text \<open>
  A published poll \<open>P\<close> with the options \<open>A\<close>, \<open>B\<close> and \<open>C\<close>, an unpublished poll \<open>Q\<close>
  with the options \<open>D\<close> and \<open>E\<close>, three users, and no vote yet. The store returns the
  options in the order of their insertion.
\<close>

definition userX :: user where
  "userX = \<lparr>user_id = ''X'', user_name = ''Xavier'', user_email = ''x@example.org''\<rparr>"

definition userY :: user where
  "userY = \<lparr>user_id = ''Y'', user_name = ''Yara'', user_email = ''y@example.org''\<rparr>"

definition userZ :: user where
  "userZ = \<lparr>user_id = ''Z'', user_name = ''Zoe'', user_email = ''z@example.org''\<rparr>"

definition pollP :: poll where
  "pollP = \<lparr>poll_id = ''P'', poll_question = ''Which one?'', poll_isPublished = True,
            poll_userId = ''Z''\<rparr>"

definition pollQ :: poll where
  "pollQ = \<lparr>poll_id = ''Q'', poll_question = ''Draft?'', poll_isPublished = False,
            poll_userId = ''Z''\<rparr>"

definition optA :: pollOption where
  "optA = \<lparr>option_id = ''A'', option_text = ''Alpha'', option_pollId = ''P''\<rparr>"

definition optB :: pollOption where
  "optB = \<lparr>option_id = ''B'', option_text = ''Beta'', option_pollId = ''P''\<rparr>"

definition optC :: pollOption where
  "optC = \<lparr>option_id = ''C'', option_text = ''Gamma'', option_pollId = ''P''\<rparr>"

definition optD :: pollOption where
  "optD = \<lparr>option_id = ''D'', option_text = ''Delta'', option_pollId = ''Q''\<rparr>"

definition optE :: pollOption where
  "optE = \<lparr>option_id = ''E'', option_text = ''Epsilon'', option_pollId = ''Q''\<rparr>"

definition store0 :: store where
  "store0 = \<lparr>users = [userX, userY, userZ], polls = [pollP, pollQ],
             pollOptions = [optA, optB, optC, optD, optE], votes = [],
             row_place = (\<lambda>oid. 0)\<rparr>"

definition mk_vote :: "string \<Rightarrow> string \<Rightarrow> string \<Rightarrow> vote" where
  "mk_vote vid uid oid =
     \<lparr>vote_id = vid, vote_createdAt = ''2025-01-01T00:00:00.000Z'', vote_userId = uid,
      vote_pollOptionId = oid\<rparr>"

text \<open>The same store after one vote for each of \<open>A\<close>, \<open>B\<close> and \<open>C\<close>.\<close>

definition store111 :: store where
  "store111 = store0\<lparr>votes := [mk_vote ''v1'' ''X'' ''A'', mk_vote ''v2'' ''Y'' ''B'',
                                mk_vote ''v3'' ''Z'' ''C'']\<rparr>"

text \<open>
  A poll \<open>T\<close> with two options and forty voters \<open>u\<close>, \<open>ua\<close>, \<open>uaa\<close>, ...: the first 23 voted
  for \<open>A\<close>, the other 17 for \<open>B\<close>. The store returns \<open>A\<close> before \<open>B\<close>.
\<close>

definition nth_name :: "string \<Rightarrow> nat \<Rightarrow> string" where
  "nth_name prefix n = prefix @ replicate n (CHR ''a'')"

definition store_23_17 :: store where
  "store_23_17 =
     \<lparr>users = map (\<lambda>n. \<lparr>user_id = nth_name ''u'' n, user_name = nth_name ''n'' n,
                         user_email = nth_name ''e'' n\<rparr>) [0..<40],
      polls = [\<lparr>poll_id = ''T'', poll_question = ''Tie?'', poll_isPublished = True,
                poll_userId = ''u''\<rparr>],
      pollOptions = [\<lparr>option_id = ''A'', option_text = ''Alpha'', option_pollId = ''T''\<rparr>,
                     \<lparr>option_id = ''B'', option_text = ''Beta'', option_pollId = ''T''\<rparr>],
      votes = map (\<lambda>n. mk_vote (nth_name ''v'' n) (nth_name ''u'' n) ''A'') [0..<23] @
              map (\<lambda>n. mk_vote (nth_name ''v'' n) (nth_name ''u'' n) ''B'') [23..<40],
      row_place = (\<lambda>oid. 0)\<rparr>"

definition world_of :: "store \<Rightarrow> world" where
  "world_of s = \<lparr>db = s, rooms = (\<lambda>room. []), emitted = [], delivered = []\<rparr>"

definition vote_request :: "string \<Rightarrow> string \<Rightarrow> string \<Rightarrow> request" where
  "vote_request uid oid vid =
     \<lparr>req_user_id = uid, req_body = [(''pollOptionId'', JStr oid)], req_new_id = vid,
      req_now = ''2025-01-01T00:00:00.000Z''\<rparr>"

text \<open>The row that \<open>X\<close>'s vote for \<open>A\<close> inserts, with its relations.\<close>

definition first_vote :: created_vote where
  "first_vote =
     \<lparr>cv_vote = mk_vote ''v1'' ''X'' ''A'', cv_user = userX, cv_option = optA, cv_poll = pollP\<rparr>"

text \<open>
  The store after \<open>X\<close> voted for \<open>A\<close> and \<open>Y\<close> for \<open>B\<close>, and the payload of the
  broadcast that follows the second vote.
\<close>

definition store_after_two :: store where
  "store_after_two = store0\<lparr>votes := [mk_vote ''v1'' ''X'' ''A'', mk_vote ''v2'' ''Y'' ''B'']\<rparr>"

definition tally_after_two :: json where
  "tally_after_two =
     JObj [(''pollId'', JStr ''P''),
           (''results'',
            JObj [(''pollId'', JStr ''P''), (''question'', JStr ''Which one?''),
                  (''totalVotes'', JNum 2),
                  (''options'',
                   JArr [JObj [(''id'', JStr ''A''), (''text'', JStr ''Alpha''),
                               (''voteCount'', JNum 1), (''percentage'', JNum 50)],
                         JObj [(''id'', JStr ''B''), (''text'', JStr ''Beta''),
                               (''voteCount'', JNum 1), (''percentage'', JNum 50)],
                         JObj [(''id'', JStr ''C''), (''text'', JStr ''Gamma''),
                               (''voteCount'', JNum 0), (''percentage'', JNum 0)]])])]"

text \<open>
  The first store when it returns the options of each poll in the reverse of their
  creation: those of \<open>P\<close> as \<open>C\<close>, \<open>B\<close>, \<open>A\<close>, those of \<open>Q\<close> as \<open>E\<close>, \<open>D\<close>.
\<close>

definition store_moved :: store where
  "store_moved =
     store0\<lparr>row_place :=
       (\<lambda>oid. if oid = ''A'' then 2 else if oid = ''B'' \<or> oid = ''D'' then 1 else 0)\<rparr>"

text \<open>
  That store after \<open>Q\<close> was published, \<open>X\<close> voted for \<open>D\<close>, \<open>Y\<close> and \<open>Z\<close> voted for
  \<open>E\<close>, \<open>Q\<close> was unpublished again (\<open>updatePoll\<close> sets the flag either way), and
  \<open>X\<close> and \<open>Y\<close> voted for \<open>A\<close>, \<open>Z\<close> for \<open>B\<close>.
\<close>

definition store_draft :: store where
  "store_draft =
     store_moved\<lparr>votes := [mk_vote ''v1'' ''X'' ''D'', mk_vote ''v2'' ''Y'' ''E'',
                             mk_vote ''v3'' ''Z'' ''E'', mk_vote ''v4'' ''X'' ''A'',
                             mk_vote ''v5'' ''Y'' ''A'', mk_vote ''v6'' ''Z'' ''B'']\<rparr>"

text \<open>
  The first store after the owner of \<open>P\<close> deleted the poll: its options (and the votes
  for them) went with it.
\<close>

definition store_gone :: store where
  "store_gone = store0\<lparr>polls := [pollQ], pollOptions := [optD, optE]\<rparr>"

text \<open>The row that \<open>Y\<close>'s vote for \<open>B\<close> inserts, with its relations.\<close>

definition second_vote :: created_vote where
  "second_vote =
     \<lparr>cv_vote = mk_vote ''v2'' ''Y'' ''B'', cv_user = userY, cv_option = optB, cv_poll = pollP\<rparr>"

section \<open>Rounding to binary64\<close>

lemma round_ties_even_of_int: "round_ties_even (of_int k) = k"
  by (simp add: round_ties_even_def)

lemma round_ties_even_near: "\<bar>of_int (round_ties_even x) - x\<bar> \<le> 1 / 2"
proof -
  have "of_int \<lfloor>x\<rfloor> \<le> x" "x < of_int \<lfloor>x\<rfloor> + 1" by linarith+
  then show ?thesis
    by (auto simp: round_ties_even_def Let_def)
qed

lemma round_ties_even_unique:
  assumes "\<bar>x - of_int q\<bar> < 1 / 2"
  shows "round_ties_even x = q"
proof -
  have "\<bar>of_int (round_ties_even x) - x\<bar> \<le> 1 / 2" by (rule round_ties_even_near)
  with assms have "\<bar>(of_int (round_ties_even x) :: rat) - of_int q\<bar> < 1" by linarith
  then have "\<bar>(of_int (round_ties_even x - q) :: rat)\<bar> < 1" by simp
  then have "\<bar>round_ties_even x - q\<bar> < 1"
    by (metis (no_types) of_int_abs of_int_less_1_iff)
  then show ?thesis by linarith
qed

lemma bit_length_bounds:
  assumes "0 < a"
  shows "(2::rat) ^ (floorlog 2 (nat a) - 1) \<le> of_int a \<and> of_int a < (2::rat) ^ floorlog 2 (nat a)"
proof -
  define l where "l = floorlog 2 (nat a)"
  have ba: "2 ^ (l - 1) \<le> nat a \<and> nat a < 2 ^ l"
    unfolding l_def using assms by (intro floorlog_bounds) auto
  have "(of_nat (2 ^ (l - 1)) :: rat) \<le> of_nat (nat a)" using ba by (simp only: of_nat_le_iff)
  moreover have "(of_nat (nat a) :: rat) < of_nat (2 ^ l)" using ba by (simp only: of_nat_less_iff)
  ultimately show ?thesis using assms by (simp add: l_def)
qed

lemma binade_bounds:
  assumes "0 < x"
  shows "2 powi binade x \<le> x \<and> x < 2 powi (binade x + 1)"
proof -
  obtain a b where q: "quotient_of x = (a, b)" by (cases "quotient_of x")
  then have b: "0 < b" by (rule quotient_of_denom_pos)
  have x: "x = of_int a / of_int b" using q by (rule quotient_of_div)
  with assms b have a: "0 < a" by (simp add: zero_less_divide_iff)
  define la where "la = floorlog 2 (nat a)"
  define lb where "lb = floorlog 2 (nat b)"
  have la: "0 < la" unfolding la_def using a by (simp add: floorlog_def)
  have lb: "0 < lb" unfolding lb_def using b by (simp add: floorlog_def)
  have a1: "(2::rat) ^ (la - 1) \<le> of_int a" and a2: "of_int a < (2::rat) ^ la"
    using bit_length_bounds [OF a] by (simp_all add: la_def)
  have b1: "(2::rat) ^ (lb - 1) \<le> of_int b" and b2: "of_int b < (2::rat) ^ lb"
    using bit_length_bounds [OF b] by (simp_all add: lb_def)
  define e0 where "e0 = int la - int lb"
  have bin: "binade x = (if 2 powi e0 \<le> x then e0 else e0 - 1)"
    by (simp add: binade_def q la_def lb_def e0_def)
  have bpos: "(0::rat) < of_int b" using b by simp
  have up: "x < 2 powi (e0 + 1)"
  proof -
    have lt: "of_int a * (2::rat) ^ (lb - 1) < 2 ^ la * of_int b"
      using a1 a2 b1 a b by (intro mult_less_le_imp_less) auto
    have "e0 + 1 = int la - int (lb - 1)" using lb by (simp add: e0_def)
    then have "(2::rat) powi (e0 + 1) = 2 ^ la / 2 ^ (lb - 1)"
      by (simp add: power_int_diff)
    then have eq: "(2::rat) ^ la = 2 powi (e0 + 1) * 2 ^ (lb - 1)" by simp
    have "of_int a * (2::rat) ^ (lb - 1) < (2 powi (e0 + 1) * of_int b) * 2 ^ (lb - 1)"
      using lt unfolding eq by (simp only: mult_ac)
    then have "of_int a < 2 powi (e0 + 1) * (of_int b :: rat)"
      by (simp only: mult_less_cancel_right) auto
    then show ?thesis unfolding x using bpos by (simp add: pos_divide_less_eq)
  qed
  have lo: "2 powi (e0 - 1) \<le> x"
  proof -
    have le: "(2::rat) ^ (la - 1) * of_int b \<le> of_int a * 2 ^ lb"
      using a1 b2 a b by (intro mult_mono) auto
    have "e0 - 1 = int (la - 1) - int lb" using la by (simp add: e0_def)
    then have "(2::rat) powi (e0 - 1) = 2 ^ (la - 1) / 2 ^ lb"
      by (simp add: power_int_diff)
    then have eq: "(2::rat) ^ (la - 1) = 2 powi (e0 - 1) * 2 ^ lb" by simp
    have "(2 powi (e0 - 1) * of_int b) * (2::rat) ^ lb \<le> of_int a * 2 ^ lb"
      using le unfolding eq by (simp only: mult_ac)
    then have "2 powi (e0 - 1) * (of_int b :: rat) \<le> of_int a"
      by (simp only: mult_le_cancel_right) auto
    then show ?thesis unfolding x using bpos by (simp add: pos_le_divide_eq)
  qed
  show ?thesis
  proof (cases "2 powi e0 \<le> x")
    case True
    then show ?thesis using up by (simp add: bin)
  next
    case False
    then show ?thesis using lo by (simp add: bin)
  qed
qed

lemma binade_unique:
  assumes "0 < x" and lo: "2 powi e \<le> x" and up: "x < 2 powi (e + 1)"
  shows "binade x = e"
proof -
  from binade_bounds [OF \<open>0 < x\<close>]
  have b1: "2 powi binade x \<le> x" and b2: "x < 2 powi (binade x + 1)" by auto
  have "(2::rat) powi binade x < 2 powi (e + 1)" using b1 up by linarith
  then have "binade x < e + 1"
    using power_int_increasing [of "e + 1" "binade x" "2::rat"] by (cases "binade x < e + 1") auto
  moreover have "(2::rat) powi e < 2 powi (binade x + 1)" using lo b2 by linarith
  then have "e < binade x + 1"
    using power_int_increasing [of "binade x + 1" e "2::rat"] by (cases "e < binade x + 1") auto
  ultimately show ?thesis by linarith
qed

lemma fl_pos: "0 < x \<Longrightarrow> fl x = of_int (round_ties_even (x / 2 powi (binade x - 52))) * 2 powi (binade x - 52)"
  by (simp add: fl_def Let_def)

lemma fl_eqI:
  assumes "0 < x" and "2 powi e \<le> x" and "x < 2 powi (e + 1)"
    and "\<bar>x / 2 powi (e - 52) - of_int q\<bar> < 1 / 2"
  shows "fl x = of_int q * 2 powi (e - 52)"
proof -
  have "binade x = e" using assms(1-3) by (rule binade_unique)
  moreover have "round_ties_even (x / 2 powi (e - 52)) = q"
    using assms(4) by (rule round_ties_even_unique)
  ultimately show ?thesis using \<open>0 < x\<close> by (simp add: fl_pos)
qed

lemma fl_error:
  assumes "0 < x"
  shows "\<bar>fl x - x\<bar> \<le> x / 2 ^ 53"
proof -
  define e where "e = binade x"
  define u :: rat where "u = 2 powi (e - 52)"
  have u: "0 < u" by (simp add: u_def)
  have lo: "2 powi e \<le> x" using binade_bounds [OF assms] by (simp add: e_def)
  have flx: "fl x = of_int (round_ties_even (x / u)) * u"
    using assms by (simp add: fl_pos e_def u_def)
  have "\<bar>of_int (round_ties_even (x / u)) - x / u\<bar> \<le> 1 / 2" by (rule round_ties_even_near)
  then have "\<bar>of_int (round_ties_even (x / u)) - x / u\<bar> * u \<le> 1 / 2 * u"
    using u by (intro mult_right_mono) auto
  then have "\<bar>(of_int (round_ties_even (x / u)) - x / u) * u\<bar> \<le> u / 2"
    using u by (simp add: abs_mult)
  then have "\<bar>fl x - x\<bar> \<le> u / 2" using u by (simp add: flx left_diff_distrib)
  moreover have "u / 2 = 2 powi e / 2 ^ 53"
    by (simp add: u_def power_int_diff)
  moreover have "2 powi e / 2 ^ 53 \<le> x / 2 ^ 53" using lo by (simp add: divide_right_mono)
  ultimately show ?thesis by linarith
qed

lemma fl_of_nat_exact:
  assumes "n \<le> 2 ^ 53"
  shows "fl (of_nat n) = of_nat n"
proof (cases "n = 0")
  case True
  then show ?thesis by (simp add: fl_def)
next
  case False
  define x :: rat where "x = of_nat n"
  define e where "e = binade x"
  have x: "0 < x" using False by (simp add: x_def)
  have xle: "x \<le> 2 ^ 53"
  proof -
    have "(of_nat n :: rat) \<le> of_nat (2 ^ 53)" using assms by (simp only: of_nat_le_iff)
    then show ?thesis by (simp add: x_def)
  qed
  have lo: "2 powi e \<le> x" and up: "x < 2 powi (e + 1)"
    using binade_bounds [OF x] by (simp_all add: e_def)
  have "(2::rat) powi e \<le> 2 powi 53" using lo xle by simp
  then have e53: "e \<le> 53"
    using power_int_strict_increasing [of 53 e "2::rat"] by (cases "e \<le> 53") auto
  have "\<exists>k. x / 2 powi (e - 52) = of_int k"
  proof (cases "e \<le> 52")
    case True
    have "x / 2 powi (e - 52) = x * 2 powi (52 - e)"
      by (simp add: power_int_diff)
    also have "\<dots> = of_int (int n * 2 ^ nat (52 - e))"
      using True by (simp add: x_def power_int_def)
    finally show ?thesis by blast
  next
    case False
    with e53 have e: "e = 53" by simp
    with lo xle have "x = 2 ^ 53" by simp
    then have "x / 2 powi (e - 52) = of_int (2 ^ 52)" by (simp add: e)
    then show ?thesis by blast
  qed
  then obtain k where k: "x / 2 powi (e - 52) = of_int k" by blast
  have "fl x = of_int k * 2 powi (e - 52)"
    using x by (simp add: fl_pos k round_ties_even_of_int flip: e_def)
  also have "\<dots> = x" using k by (simp add: field_simps)
  finally show ?thesis by (simp add: x_def)
qed

lemma Math_round_eqI:
  assumes "of_int k \<le> x + 1 / 2" and "x + 1 / 2 < of_int k + 1"
  shows "Math_round x = of_int k"
  unfolding Math_round_def using assms by (simp add: floor_unique)

lemma percentage_eqI:
  assumes "0 < t" and "fl (c / t) = y" and "fl (y * 100) = z"
    and "of_int k \<le> z + 1 / 2" and "z + 1 / 2 < of_int k + 1"
  shows "percentage c t = of_int k"
  using assms by (simp add: percentage_def js_div_def js_mul_def Math_round_eqI)

lemma percentage_23_40: "percentage 23 40 = 57"
proof -
  have d: "fl (23 / 40) = of_int 5179139571476070 * 2 powi (- 1 - 52)"
    by (rule fl_eqI) (simp_all add: power_int_minus_divide)
  have m: "fl (of_int 5179139571476070 * 2 powi (- 1 - 52) * 100) =
           of_int 8092405580431359 * 2 powi (5 - 52)"
    by (rule fl_eqI) (simp_all add: power_int_minus_divide)
  have "percentage 23 40 = of_int 57"
    by (rule percentage_eqI [OF _ d m]) (simp_all add: power_int_minus_divide)
  then show ?thesis by simp
qed

lemma percentage_17_40: "percentage 17 40 = 43"
proof -
  have d: "fl (17 / 40) = of_int 7656119366529843 * 2 powi (- 2 - 52)"
    by (rule fl_eqI) (simp_all add: power_int_minus_divide)
  have m: "fl (of_int 7656119366529843 * 2 powi (- 2 - 52) * 100) =
           of_int 5981343255101440 * 2 powi (5 - 52)"
    by (rule fl_eqI) (simp_all add: power_int_minus_divide)
  have "percentage 17 40 = of_int 43"
    by (rule percentage_eqI [OF _ d m]) (simp_all add: power_int_minus_divide)
  then show ?thesis by simp
qed

lemma percentage_1_3: "percentage 1 3 = 33"
proof -
  have d: "fl (1 / 3) = of_int 6004799503160661 * 2 powi (- 2 - 52)"
    by (rule fl_eqI) (simp_all add: power_int_minus_divide)
  have m: "fl (of_int 6004799503160661 * 2 powi (- 2 - 52) * 100) =
           of_int 4691249611844266 * 2 powi (5 - 52)"
    by (rule fl_eqI) (simp_all add: power_int_minus_divide)
  have "percentage 1 3 = of_int 33"
    by (rule percentage_eqI [OF _ d m]) (simp_all add: power_int_minus_divide)
  then show ?thesis by simp
qed

lemma percentage_2_3: "percentage 2 3 = 67"
proof -
  have d: "fl (2 / 3) = of_int 6004799503160661 * 2 powi (- 1 - 52)"
    by (rule fl_eqI) (simp_all add: power_int_minus_divide)
  have m: "fl (of_int 6004799503160661 * 2 powi (- 1 - 52) * 100) =
           of_int 4691249611844266 * 2 powi (6 - 52)"
    by (rule fl_eqI) (simp_all add: power_int_minus_divide)
  have "percentage 2 3 = of_int 67"
    by (rule percentage_eqI [OF _ d m]) (simp_all add: power_int_minus_divide)
  then show ?thesis by simp
qed

lemma percentage_1_1: "percentage 1 1 = 100"
proof -
  have d: "fl 1 = 1" using fl_of_nat_exact [of 1] by simp
  have m: "fl 100 = 100" using fl_of_nat_exact [of 100] by simp
  have "\<lfloor>(100::rat) + 1 / 2\<rfloor> = 100" by (rule floor_unique) simp_all
  then show ?thesis
    by (simp add: percentage_def js_div_def js_mul_def d m Math_round_def)
qed

lemma percentage_0_1: "percentage 0 1 = 0"
proof -
  have "\<lfloor>(1::rat) / 2\<rfloor> = 0" by (rule floor_unique) simp_all
  then show ?thesis
    by (simp add: percentage_def js_div_def js_mul_def fl_def Math_round_def)
qed

lemma percentage_0_3: "percentage 0 3 = 0"
proof -
  have "\<lfloor>(1::rat) / 2\<rfloor> = 0" by (rule floor_unique) simp_all
  then show ?thesis
    by (simp add: percentage_def js_div_def js_mul_def fl_def Math_round_def)
qed

section \<open>The tally\<close>

lemma poll_options_place_0:
  assumes "row_place s = (\<lambda>oid. 0)"
  shows "poll_options s pid = filter (\<lambda>opt. option_pollId opt = pid) (pollOptions s)"
  by (simp add: poll_options_def assms sort_key_const)

lemma poll_options_mset:
  "mset (poll_options s pid) = mset (options_created s pid)"
  by (simp add: poll_options_def options_created_def)

text \<open>
  The model leaves the order of the options open: whatever the order of a poll's options
  (with distinct ids), there is a \<open>row_place\<close> under which the store returns them in
  that order.
\<close>

lemma place_of_nth:
  assumes "distinct zs"
  shows "map (\<lambda>z. length (takeWhile (\<lambda>x. x \<noteq> z) zs)) zs = [0..<length zs]"
  using assms
proof (induction zs)
  case Nil
  then show ?case by simp
next
  case (Cons a as)
  have "map (\<lambda>z. length (takeWhile (\<lambda>x. x \<noteq> z) (a # as))) as =
        map (\<lambda>z. Suc (length (takeWhile (\<lambda>x. x \<noteq> z) as))) as"
    using Cons.prems by (intro map_cong) auto
  also have "\<dots> = map Suc (map (\<lambda>z. length (takeWhile (\<lambda>x. x \<noteq> z) as)) as)"
    by simp
  also have "\<dots> = map Suc [0..<length as]"
    using Cons by simp
  also have "\<dots> = [Suc 0..<Suc (length as)]" by (rule map_Suc_upt)
  finally have tl: "map (\<lambda>z. length (takeWhile (\<lambda>x. x \<noteq> z) (a # as))) as =
      [Suc 0..<Suc (length as)]" .
  have "[0..<length (a # as)] = 0 # [Suc 0..<Suc (length as)]"
    by (simp only: list.size upt_conv_Cons) (simp add: upt_conv_Cons)
  then show ?case using tl by simp
qed

lemma filter_eq_distinct:
  "distinct xs \<Longrightarrow> k \<in> set xs \<Longrightarrow> filter (\<lambda>x. k = x) xs = [k]"
proof (induction xs)
  case Nil
  then show ?case by simp
next
  case (Cons a as)
  show ?case
  proof (cases "k = a")
    case True
    with Cons.prems have "filter (\<lambda>x. k = x) as = []" by (auto simp: filter_empty_conv)
    with True show ?thesis by simp
  next
    case False
    with Cons show ?thesis by simp
  qed
qed

lemma every_order_is_returned:
  assumes m: "mset ys = mset (options_created s pid)"
    and d: "distinct (map option_id (options_created s pid))"
  shows "poll_options
           (s\<lparr>row_place := (\<lambda>oid. length (takeWhile (\<lambda>x. x \<noteq> oid) (map option_id ys)))\<rparr>)
           pid = ys"
proof -
  define f :: "pollOption \<Rightarrow> nat" where "f = (\<lambda>opt. length (takeWhile (\<lambda>x. x \<noteq> option_id opt) (map option_id ys)))"
  define xs where "xs = options_created s pid"
  have dy: "distinct (map option_id ys)"
  proof -
    have "mset (map option_id ys) = mset (map option_id xs)"
      using m by (simp add: xs_def)
    then show ?thesis using d by (metis mset_eq_imp_distinct_iff xs_def)
  qed
  have mf: "map f ys = [0..<length ys]"
    using place_of_nth [OF dy] by (simp add: f_def o_def)
  have inj: "inj_on f (set ys)"
  proof -
    have "distinct (map f ys)" by (simp add: mf)
    then show ?thesis by (simp add: distinct_map)
  qed
  have dys: "distinct ys" using dy by (simp add: distinct_map)
  have dxs: "distinct xs" using d by (simp add: distinct_map xs_def)
  have sxy: "set xs = set ys" using m by (metis mset_eq_setD xs_def)
  have flt: "filter (\<lambda>x. f k = f x) ys = filter (\<lambda>x. f k = f x) xs" if "k \<in> set ys" for k
  proof -
    have "filter (\<lambda>x. f k = f x) ys = filter (\<lambda>x. k = x) ys"
      using inj that by (intro filter_cong) (auto simp: inj_on_def)
    also have "\<dots> = [k]" using dys that by (rule filter_eq_distinct)
    finally have a: "filter (\<lambda>x. f k = f x) ys = [k]" .
    have "filter (\<lambda>x. f k = f x) xs = filter (\<lambda>x. k = x) xs"
      using inj that sxy by (intro filter_cong) (auto simp: inj_on_def)
    also have "\<dots> = [k]" using dxs that sxy by (intro filter_eq_distinct) simp_all
    finally show ?thesis using a by simp
  qed
  have srt: "sorted (map f ys)" unfolding mf by simp
  have "sort_key f xs = ys"
    using m [folded xs_def] flt srt by (rule properties_for_sort_key)
  then show ?thesis
    by (simp add: poll_options_def f_def xs_def options_created_def)
qed

lemma js_add_counts:
  assumes "a + b \<le> 2 ^ 53"
  shows "js_add (of_nat a) (number_of_count b) = of_nat (a + b)"
proof -
  have "b \<le> 2 ^ 53" using assms by simp
  then have "number_of_count b = of_nat b"
    unfolding number_of_count_def by (rule fl_of_nat_exact)
  then have "js_add (of_nat a) (number_of_count b) = fl (of_nat (a + b))"
    by (simp add: js_add_def)
  also have "\<dots> = of_nat (a + b)" using assms by (rule fl_of_nat_exact)
  finally show ?thesis .
qed

lemma foldl_js_add_counts:
  "a + sum_list (map f xs) \<le> 2 ^ 53 \<Longrightarrow>
   foldl (\<lambda>sum oc. js_add sum (snd oc)) (of_nat a) (map (\<lambda>x. (x, number_of_count (f x))) xs) =
   of_nat (a + sum_list (map f xs))"
proof (induction xs arbitrary: a)
  case Nil
  then show ?case by simp
next
  case (Cons x xs)
  have ab: "a + f x \<le> 2 ^ 53" using Cons.prems by simp
  have rest: "(a + f x) + sum_list (map f xs) \<le> 2 ^ 53" using Cons.prems by simp
  show ?case
    using Cons.IH [OF rest] by (simp add: js_add_counts [OF ab] add.assoc)
qed

lemma getPollResultsInternal_Some:
  "getPollResultsInternal s pid = Some r \<longleftrightarrow>
   (\<exists>p. find_poll s pid = Some p \<and>
        r = results_of p (map (\<lambda>opt. (opt, number_of_count (count_votes s (option_id opt))))
                            (poll_options s pid)))"
  by (auto simp: getPollResultsInternal_def poll_findUnique_counts_def split: option.splits)

lemma getPollResultsInternal_eq:
  "getPollResultsInternal s pid =
     map_option (\<lambda>p. results_of p (map (\<lambda>opt. (opt, number_of_count (count_votes s (option_id opt))))
                                        (poll_options s pid)))
       (find_poll s pid)"
  by (simp add: getPollResultsInternal_def poll_findUnique_counts_def split: option.splits)

lemma find_poll_id: "find_poll s pid = Some p \<Longrightarrow> poll_id p = pid"
  by (auto simp: find_poll_def find_Some_iff)

lemma json_of_results_Some:
  "json_of_results (Some (results_of p (map (\<lambda>opt. (opt, number_of_count (f opt))) opts))) =
     JObj [(''pollId'', JStr (poll_id p)), (''question'', JStr (poll_question p)),
           (''totalVotes'',
              JNum (foldl (\<lambda>sum opt. js_add sum (number_of_count (f opt))) 0 opts)),
           (''options'',
              JArr (map (\<lambda>opt.
                JObj [(''id'', JStr (option_id opt)), (''text'', JStr (option_text opt)),
                      (''voteCount'', JNum (number_of_count (f opt))),
                      (''percentage'',
                         JNum (percentage (number_of_count (f opt))
                           (foldl (\<lambda>sum opt. js_add sum (number_of_count (f opt))) 0 opts)))])
                opts))]"
proof -
  have "foldl (\<lambda>sum oc. js_add sum (snd oc)) a (map (\<lambda>opt. (opt, number_of_count (f opt))) opts) =
        foldl (\<lambda>sum opt. js_add sum (number_of_count (f opt))) a opts" for a
    by (induction opts arbitrary: a) simp_all
  then show ?thesis
    by (simp add: json_of_results_def results_of_def Let_def json_of_option_result_def o_def)
qed

lemma total_is_sum:
  assumes "getPollResultsInternal s pid = Some r"
    and "sum_list (map (\<lambda>opt. count_votes s (option_id opt)) (poll_options s pid)) \<le> 2 ^ 53"
  shows "pr_totalVotes r =
         of_nat (sum_list (map (\<lambda>opt. count_votes s (option_id opt)) (poll_options s pid)))"
proof -
  from assms(1) obtain p where
    r: "r = results_of p (map (\<lambda>opt. (opt, number_of_count (count_votes s (option_id opt))))
                            (poll_options s pid))"
    by (auto simp: getPollResultsInternal_Some)
  have "foldl (\<lambda>sum oc. js_add sum (snd oc)) (of_nat 0)
          (map (\<lambda>opt. (opt, number_of_count (count_votes s (option_id opt)))) (poll_options s pid)) =
        of_nat (0 + sum_list (map (\<lambda>opt. count_votes s (option_id opt)) (poll_options s pid)))"
    using assms(2) by (intro foldl_js_add_counts) simp
  then show ?thesis by (simp add: r results_of_def Let_def)
qed

lemma count_23: "count_votes store_23_17 ''A'' = 23"
  by (simp add: count_votes_def store_23_17_def mk_vote_def filter_map o_def)

lemma count_17: "count_votes store_23_17 ''B'' = 17"
  by (simp add: count_votes_def store_23_17_def mk_vote_def filter_map o_def)

lemma results_23_17:
  "getPollResultsInternal store_23_17 ''T'' =
     Some \<lparr>pr_pollId = ''T'', pr_question = ''Tie?'', pr_totalVotes = 40,
           pr_options = [\<lparr>or_id = ''A'', or_text = ''Alpha'', or_voteCount = 23, or_percentage = 57\<rparr>,
                         \<lparr>or_id = ''B'', or_text = ''Beta'', or_voteCount = 17, or_percentage = 43\<rparr>]\<rparr>"
proof -
  have n23: "number_of_count 23 = 23"
    unfolding number_of_count_def using fl_of_nat_exact [of 23] by simp
  have n17: "number_of_count 17 = 17"
    unfolding number_of_count_def using fl_of_nat_exact [of 17] by simp
  have a1: "js_add 0 23 = 23"
    unfolding js_add_def using fl_of_nat_exact [of 23] by simp
  have a2: "js_add 23 17 = 40"
    unfolding js_add_def using fl_of_nat_exact [of 40] by simp
  have po: "poll_options store_23_17 ''T'' =
      [\<lparr>option_id = ''A'', option_text = ''Alpha'', option_pollId = ''T''\<rparr>,
       \<lparr>option_id = ''B'', option_text = ''Beta'', option_pollId = ''T''\<rparr>]"
    by (simp add: poll_options_place_0 store_23_17_def)
  have fp: "find_poll store_23_17 ''T'' =
      Some \<lparr>poll_id = ''T'', poll_question = ''Tie?'', poll_isPublished = True,
            poll_userId = ''u''\<rparr>"
    by (simp add: find_poll_def store_23_17_def)
  show ?thesis
    by (simp add: getPollResultsInternal_def poll_findUnique_counts_def po fp results_of_def
        count_23 count_17 n23 n17 a1 a2 percentage_23_40 percentage_17_40)
qed

lemma percentage_zero_total: "percentage c 0 = 0"
  by (simp add: percentage_def)

subsection \<open>How far the percentage is from the exact one\<close>

text \<open>
  The quotient and the product are each rounded once, so the computed value is within
  \<open>201 / 2^53\<close> of the exact percentage. For a total of at most \<open>2^44\<close> votes this is
  less than the distance of an exact percentage from the next half-integer, unless the
  exact percentage is a half-integer itself. So the reported percentage is the exact one
  rounded half up, except that on an exact tie it may be the integer below.
\<close>

lemma fl_nonneg_pos: "0 < x \<Longrightarrow> 0 < fl x"
proof -
  assume x: "0 < x"
  have "\<bar>fl x - x\<bar> \<le> x / 2 ^ 53" using x by (rule fl_error)
  then have "x - x / 2 ^ 53 \<le> fl x" by linarith
  moreover have "x / 2 ^ 53 < x" using x by (simp add: field_simps)
  ultimately show ?thesis by linarith
qed

lemma percentage_error:
  assumes "0 < x" and "x \<le> 1"
  shows "\<bar>fl (fl x * 100) - 100 * x\<bar> \<le> 201 / 2 ^ 53"
proof -
  define y where "y = fl x"
  have e1: "\<bar>y - x\<bar> \<le> x / 2 ^ 53" unfolding y_def using assms(1) by (rule fl_error)
  have y: "0 < y" unfolding y_def using assms(1) by (rule fl_nonneg_pos)
  then have "0 < y * 100" by simp
  then have e2: "\<bar>fl (y * 100) - y * 100\<bar> \<le> y * 100 / 2 ^ 53" by (rule fl_error)
  have yle: "y \<le> x + x / 2 ^ 53" using e1 by linarith
  have "x / 2 ^ 53 \<le> 1 / 2 ^ 53" using assms(2) by (simp add: divide_right_mono)
  with yle assms(2) have yb: "y \<le> 1 + 1 / 2 ^ 53" by linarith
  have "y * 100 / 2 ^ 53 \<le> (1 + 1 / 2 ^ 53) * 100 / 2 ^ 53"
    using yb by (simp add: divide_right_mono)
  with e2 have b2: "\<bar>fl (y * 100) - y * 100\<bar> \<le> (1 + 1 / 2 ^ 53) * 100 / 2 ^ 53" by linarith
  have "\<bar>y - x\<bar> \<le> 1 / 2 ^ 53" using e1 \<open>x / 2 ^ 53 \<le> 1 / 2 ^ 53\<close> by linarith
  then have b1: "\<bar>y * 100 - 100 * x\<bar> \<le> 100 / 2 ^ 53" by linarith
  have "\<bar>fl (y * 100) - 100 * x\<bar> \<le> (1 + 1 / 2 ^ 53) * 100 / 2 ^ 53 + 100 / 2 ^ 53"
    using b1 b2 by linarith
  also have "\<dots> \<le> 201 / 2 ^ 53" by simp
  finally show ?thesis by (simp add: y_def)
qed

lemma percentage_nearest:
  fixes c t :: nat
  assumes t: "0 < t" and ct: "c \<le> t" and small: "t \<le> 2 ^ 44"
  shows "percentage (of_nat c) (of_nat t) = of_int (round (100 * of_nat c / of_nat t :: rat))
       \<or> (2 * t dvd 200 * c + t \<and>
          percentage (of_nat c) (of_nat t) = of_int (round (100 * of_nat c / of_nat t :: rat)) - 1)"
proof (cases "c = 0")
  case True
  have "\<lfloor>(1::rat) / 2\<rfloor> = 0" by (rule floor_unique) simp_all
  with True show ?thesis
    using t by (simp add: percentage_def js_div_def js_mul_def fl_def Math_round_def)
next
  case False
  define x :: rat where "x = of_nat c / of_nat t"
  define y where "y = fl (fl x * 100)"
  define n :: int where "n = 200 * int c + int t"
  define d :: int where "d = 2 * int t"
  define k where "k = n div d"
  define r where "r = n mod d"
  have tpos: "(0::rat) < of_nat t" using t by simp
  have x0: "0 < x" using False t by (simp add: x_def)
  have x1: "x \<le> 1" using ct t by (simp add: x_def)
  have err: "\<bar>y - 100 * x\<bar> \<le> 201 / 2 ^ 53"
    unfolding y_def using x0 x1 by (rule percentage_error)
  have dpos: "0 < d" using t by (simp add: d_def)
  have dq: "(0::rat) < of_int d" using dpos by simp
  have dle: "(of_int d :: rat) \<le> 2 ^ 45"
  proof -
    have "d \<le> 2 ^ 45" using small by (simp add: d_def)
    then have "(of_int d :: rat) \<le> of_int (2 ^ 45)" by (simp only: of_int_le_iff)
    then show ?thesis by simp
  qed
  have half: "100 * x + 1 / 2 = of_int n / of_int d"
    using t by (simp add: x_def n_def d_def field_simps)
  have nd: "n = d * k + r" by (simp add: k_def r_def)
  have r0: "0 \<le> r" and rd: "r < d" using dpos by (simp_all add: r_def)
  have split: "of_int n / of_int d = (of_int k :: rat) + of_int r / of_int d"
    using dq by (simp add: nd field_simps)
  have rnd: "round (100 * of_nat c / of_nat t :: rat) = k"
  proof -
    have "round (100 * x) = \<lfloor>of_int n / (of_int d :: rat)\<rfloor>"
      by (simp add: round_def half)
    also have "\<dots> = k" by (simp add: k_def floor_divide_of_int_eq)
    finally show ?thesis by (simp add: x_def)
  qed
  have pct: "percentage (of_nat c) (of_nat t) = of_int \<lfloor>y + 1 / 2\<rfloor>"
    using t by (simp add: percentage_def js_div_def js_mul_def Math_round_def y_def x_def)
  have delta: "(201::rat) / 2 ^ 53 < 1 / of_int d"
  proof -
    have "(201::rat) / 2 ^ 53 < 1 / 2 ^ 45" by simp
    also have "\<dots> \<le> 1 / of_int d" using dq dle by (simp add: frac_le)
    finally show ?thesis .
  qed
  have err': "\<bar>y - 100 * x\<bar> < 1 / of_int d" using err delta by linarith
  have yhalf: "y + 1 / 2 = of_int k + of_int r / of_int d + (y - 100 * x)"
  proof -
    have "100 * x + 1 / 2 = of_int k + of_int r / of_int d" using half split by simp
    then show ?thesis by linarith
  qed
  show ?thesis
  proof (cases "r = 0")
    case True
    have q1: "1 / of_int d \<le> (1::rat)"
    proof -
      have "1 \<le> d" using dpos by simp
      then have "(of_int 1 :: rat) \<le> of_int d" by (simp only: of_int_le_iff)
      then show ?thesis using dq by simp
    qed
    have yh0: "y + 1 / 2 = of_int k + (y - 100 * x)" using yhalf True by simp
    have "of_int k - 1 \<le> y + 1 / 2" "y + 1 / 2 < of_int k + 1"
      using err' q1 yh0 by linarith+
    then have "\<lfloor>y + 1 / 2\<rfloor> = k \<or> \<lfloor>y + 1 / 2\<rfloor> = k - 1"
      by (metis (no_types) floor_unique of_int_diff of_int_1 diff_add_cancel le_less_linear)
    moreover have "d dvd n" using True by (simp add: r_def dvd_eq_mod_eq_0)
    then have "2 * t dvd 200 * c + t"
    proof -
      assume "d dvd n"
      then have "int (2 * t) dvd int (200 * c + t)" by (simp add: d_def n_def)
      then show ?thesis by (simp only: int_dvd_int_iff)
    qed
    ultimately show ?thesis by (auto simp: pct rnd)
  next
    case False
    with r0 have r1: "1 \<le> r" by simp
    have rlo: "1 / of_int d \<le> (of_int r :: rat) / of_int d"
      using r1 dq by (simp add: divide_right_mono)
    have "r \<le> d - 1" using rd by simp
    then have "(of_int r :: rat) \<le> of_int (d - 1)" by (simp only: of_int_le_iff)
    then have "(of_int r :: rat) / of_int d \<le> of_int (d - 1) / of_int d"
      using dq by (simp add: divide_right_mono)
    also have "\<dots> = 1 - 1 / of_int d" using dq by (simp add: field_simps)
    finally have rhi: "(of_int r :: rat) / of_int d \<le> 1 - 1 / of_int d" .
    have "of_int k \<le> y + 1 / 2" "y + 1 / 2 < of_int k + 1"
      using err' yhalf rlo rhi by linarith+
    then have "\<lfloor>y + 1 / 2\<rfloor> = k" by (simp add: floor_unique)
    then show ?thesis by (simp add: pct rnd)
  qed
qed

lemma results_percentages:
  assumes "getPollResultsInternal s pid = Some r"
    and "sum_list (map (\<lambda>opt. count_votes s (option_id opt)) (poll_options s pid)) \<le> 2 ^ 44"
  shows "map or_percentage (pr_options r) =
         map (\<lambda>opt. percentage (of_nat (count_votes s (option_id opt)))
                (of_nat (sum_list (map (\<lambda>opt. count_votes s (option_id opt)) (poll_options s pid)))))
             (poll_options s pid)"
proof -
  define total where
    "total = sum_list (map (\<lambda>opt. count_votes s (option_id opt)) (poll_options s pid))"
  have le53: "total \<le> 2 ^ 53"
  proof -
    have "(2::nat) ^ 44 \<le> 2 ^ 53" by simp
    with assms(2) show ?thesis unfolding total_def by linarith
  qed
  have tv: "pr_totalVotes r = of_nat total"
    unfolding total_def using assms(1) le53 [unfolded total_def] by (rule total_is_sum)
  from assms(1) obtain p where
    r: "r = results_of p (map (\<lambda>opt. (opt, number_of_count (count_votes s (option_id opt))))
                            (poll_options s pid))"
    by (auto simp: getPollResultsInternal_Some)
  have each: "number_of_count (count_votes s (option_id opt)) = of_nat (count_votes s (option_id opt))"
    if "opt \<in> set (poll_options s pid)" for opt
  proof -
    have "count_votes s (option_id opt) \<le> total"
      unfolding total_def using that by (simp add: member_le_sum_list)
    with le53 have "count_votes s (option_id opt) \<le> 2 ^ 53" by linarith
    then show ?thesis unfolding number_of_count_def by (rule fl_of_nat_exact)
  qed
  have "pr_totalVotes r = foldl (\<lambda>sum oc. js_add sum (snd oc)) 0
      (map (\<lambda>opt. (opt, number_of_count (count_votes s (option_id opt)))) (poll_options s pid))"
    by (simp add: r results_of_def Let_def)
  with tv have fold: "foldl (\<lambda>sum oc. js_add sum (snd oc)) 0
      (map (\<lambda>opt. (opt, number_of_count (count_votes s (option_id opt)))) (poll_options s pid)) =
      of_nat total" by simp
  show ?thesis
    using each by (simp add: r results_of_def Let_def fold o_def flip: total_def)
qed

subsection \<open>The tally written out\<close>

lemma tally_json_eq:
  assumes "find_poll s pid = Some p"
  shows "json_of_results (getPollResultsInternal s pid) = tally_json s p"
proof -
  have pid: "poll_id p = pid" using assms by (rule find_poll_id)
  show ?thesis
    by (simp add: getPollResultsInternal_eq assms json_of_results_Some percentage_def pid)
qed

lemma sum_list_indicator:
  assumes "distinct (map f opts)"
  shows "sum_list (map (\<lambda>opt. if k = f opt then 1 else 0) opts) =
         (if k \<in> f ` set opts then 1 else (0::nat))"
  using assms by (induction opts) auto

lemma sum_counts_members:
  assumes "distinct (map f opts)"
  shows "sum_list (map (\<lambda>opt. length (filter (\<lambda>v. g v = f opt) vs)) opts) =
         length (filter (\<lambda>v. g v \<in> f ` set opts) vs)"
proof (induction vs)
  case Nil
  then show ?case by simp
next
  case (Cons v vs)
  have "sum_list (map (\<lambda>opt. length (filter (\<lambda>v. g v = f opt) (v # vs))) opts) =
        sum_list (map (\<lambda>opt. (if g v = f opt then 1 else 0) +
                              length (filter (\<lambda>v. g v = f opt) vs)) opts)"
    by (intro arg_cong [where f = sum_list] map_cong) simp_all
  also have "\<dots> = sum_list (map (\<lambda>opt. if g v = f opt then 1 else 0) opts) +
                   sum_list (map (\<lambda>opt. length (filter (\<lambda>v. g v = f opt) vs)) opts)"
    by (simp add: sum_list_addf)
  also have "\<dots> = (if g v \<in> f ` set opts then 1 else 0) +
                   length (filter (\<lambda>v. g v \<in> f ` set opts) vs)"
    by (simp only: sum_list_indicator [OF assms] Cons.IH)
  finally show ?case by simp
qed

lemma vote_poll_member:
  assumes "distinct (map option_id (pollOptions s))"
  shows "vote_poll s v = Some pid \<longleftrightarrow>
         vote_pollOptionId v \<in> option_id ` set (options_created s pid)"
proof
  assume "vote_poll s v = Some pid"
  then obtain opt where f: "find_option s (vote_pollOptionId v) = Some opt"
    and p: "option_pollId opt = pid"
    by (auto simp: vote_poll_def)
  from f have "opt \<in> set (pollOptions s)" "option_id opt = vote_pollOptionId v"
    by (auto simp: find_option_def find_Some_iff)
  with p show "vote_pollOptionId v \<in> option_id ` set (options_created s pid)"
    by (force simp: options_created_def)
next
  assume "vote_pollOptionId v \<in> option_id ` set (options_created s pid)"
  then obtain opt where m: "opt \<in> set (pollOptions s)" and p: "option_pollId opt = pid"
    and i: "option_id opt = vote_pollOptionId v"
    by (auto simp: options_created_def)
  from m i obtain opt' where f: "find_option s (vote_pollOptionId v) = Some opt'"
    unfolding find_option_def
    by (cases "find (\<lambda>opt. option_id opt = vote_pollOptionId v) (pollOptions s)")
       (auto simp: find_None_iff)
  then have "opt' \<in> set (pollOptions s)" "option_id opt' = vote_pollOptionId v"
    by (auto simp: find_option_def find_Some_iff)
  with m i assms have "opt' = opt"
    by (auto simp: distinct_map inj_on_def)
  with f p show "vote_poll s v = Some pid" by (simp add: vote_poll_def)
qed

lemma sum_counts_poll:
  assumes "distinct (map option_id (pollOptions s))"
  shows "sum_list (map (\<lambda>opt. count_votes s (option_id opt)) (poll_options s pid)) =
         length (filter (\<lambda>v. vote_poll s v = Some pid) (votes s))"
proof -
  have "sum_list (map (\<lambda>opt. count_votes s (option_id opt)) (poll_options s pid)) =
        sum_mset (image_mset (\<lambda>opt. count_votes s (option_id opt)) (mset (poll_options s pid)))"
    by (simp flip: sum_mset_sum_list)
  also have "\<dots> = sum_list (map (\<lambda>opt. count_votes s (option_id opt)) (options_created s pid))"
    by (simp add: poll_options_mset flip: sum_mset_sum_list)
  also have "\<dots> = length (filter (\<lambda>v. vote_pollOptionId v \<in> option_id ` set (options_created s pid))
                        (votes s))"
  proof -
    have "distinct (map option_id (options_created s pid))"
      using assms by (simp add: options_created_def distinct_map_filter)
    then show ?thesis
      unfolding count_votes_def by (rule sum_counts_members)
  qed
  also have "\<dots> = length (filter (\<lambda>v. vote_poll s v = Some pid) (votes s))"
    by (simp add: vote_poll_member [OF assms])
  finally show ?thesis .
qed

lemma total_votes_cast:
  assumes "distinct (map option_id (pollOptions s))" and "length (votes s) \<le> 2 ^ 53"
  shows "total_votes s pid = of_nat (length (filter (\<lambda>v. vote_poll s v = Some pid) (votes s)))"
proof -
  have le: "length (filter (\<lambda>v. vote_poll s v = Some pid) (votes s)) \<le> 2 ^ 53"
    using assms(2) length_filter_le [of "\<lambda>v. vote_poll s v = Some pid" "votes s"] by linarith
  have "foldl (\<lambda>sum oc. js_add sum (snd oc)) (of_nat 0)
          (map (\<lambda>opt. (opt, number_of_count (count_votes s (option_id opt)))) (poll_options s pid)) =
        of_nat (0 + sum_list (map (\<lambda>opt. count_votes s (option_id opt)) (poll_options s pid)))"
    using le by (intro foldl_js_add_counts) (simp add: sum_counts_poll [OF assms(1)])
  moreover have "foldl (\<lambda>sum oc. js_add sum (snd oc)) a
          (map (\<lambda>opt. (opt, number_of_count (f opt))) opts) =
        foldl (\<lambda>sum opt. js_add sum (number_of_count (f opt))) a opts" for a f and opts :: "pollOption list"
    by (induction opts arbitrary: a) simp_all
  ultimately show ?thesis
    by (simp add: sum_counts_poll [OF assms(1)])
qed

lemma count_exact:
  assumes "length (votes s) \<le> 2 ^ 53"
  shows "number_of_count (count_votes s oid) = of_nat (count_votes s oid)"
proof -
  have "count_votes s oid \<le> 2 ^ 53"
    unfolding count_votes_def
    using assms length_filter_le [of "\<lambda>v. vote_pollOptionId v = oid" "votes s"] by linarith
  then show ?thesis unfolding number_of_count_def by (rule fl_of_nat_exact)
qed

section \<open>The vote controller, one request at a time\<close>

lemma submitVote_falsy:
  "falsy (map_of (req_body req) ''pollOptionId'') \<Longrightarrow>
   submitVote uq req w = (Response 400 (error_body ''Poll option ID is required''), w)"
  by (simp add: submitVote_def)

lemma falsy_JStr: "falsy (Some (JStr oid)) \<longleftrightarrow> oid = []"
  by simp

lemma submitVote_string_id:
  assumes "map_of (req_body req) ''pollOptionId'' = Some (JStr oid)" and "oid \<noteq> []"
  shows "submitVote uq req w =
     (case find_option (db w) oid of
        None \<Rightarrow> (Response 404 (error_body ''Poll option not found''), w)
      | Some opt \<Rightarrow>
          (case find_poll (db w) (option_pollId opt) of
             None \<Rightarrow> (Response 500 (error_body ''Internal server error''), w)
           | Some p \<Rightarrow>
               if \<not> poll_isPublished p
               then (Response 403 (error_body ''Cannot vote on unpublished poll''), w)
               else
                 (case vote_findFirst (db w) (req_user_id req) (poll_id p) of
                    Some v \<Rightarrow> (Response 409 (error_body ''You have already voted in this poll''), w)
                  | None \<Rightarrow>
                      (case vote_create uq (db w) (req_new_id req) (req_now req)
                              (req_user_id req) (JStr oid) of
                         Inl e \<Rightarrow> (on_catch e, w)
                       | Inr (v, s') \<Rightarrow>
                           (accepted_response v,
                            emit_to_room (poll_room (poll_id p)) ''pollUpdate''
                              (pollUpdate_payload (poll_id p)
                                 (getPollResultsInternal s' (poll_id p)))
                              (w\<lparr>db := s'\<rparr>))))))"
  using assms
  by (simp add: submitVote_def pollOption_findUnique_def on_catch_def Let_def
      split: option.splits sum.splits)

lemma vote_findFirst_Some:
  assumes "v \<in> set (votes s)" and "vote_userId v = uid" and "vote_poll s v = Some pid"
  shows "\<exists>v'. vote_findFirst s uid pid = Some v'"
proof -
  have "\<exists>x\<in>set (votes s). vote_userId x = uid \<and> vote_poll s x = Some pid"
    using assms by blast
  then show ?thesis
    unfolding vote_findFirst_def by (cases "find (\<lambda>v. vote_userId v = uid \<and> vote_poll s v = Some pid) (votes s)") (auto simp: find_None_iff)
qed

text \<open>
  An option id that is neither falsy nor a string is refused by the query, and the
  \<open>catch\<close> block answers 500.
\<close>

lemma submitVote_non_string_id:
  assumes "map_of (req_body req) ''pollOptionId'' = Some j"
    and "\<not> falsy (Some j)" and "\<forall>oid. j \<noteq> JStr oid"
  shows "submitVote uq req w = (Response 500 (error_body ''Internal server error''), w)"
proof -
  have "pollOption_findUnique (db w) j = Inl OtherError"
    using assms(3) by (cases j) (simp_all add: pollOption_findUnique_def)
  then show ?thesis using assms(1,2) by (simp add: submitVote_def on_catch_def)
qed

text \<open>
  C9. When the body carries no \<open>pollOptionId\<close>, or a falsy one (\<open>null\<close>, \<open>false\<close>,
  \<open>0\<close>, the empty string), \<open>submitVote\<close> answers 400 with the message \<open>Poll option
  ID is required\<close>, whatever the store holds, and leaves the store, the rooms and the
  broadcast log as they were. The same holds of the first step of a request in flight.
\<close>

theorem C9_missing_option_id:
  assumes "falsy (map_of (req_body req) ''pollOptionId'')"
  shows "submitVote uq req w = (Response 400 (error_body ''Poll option ID is required''), w)
       \<and> advance uq req AtFindOption w =
           (Done (Response 400 (error_body ''Poll option ID is required'')), w)"
  using assms by (simp add: submitVote_falsy)

text \<open>C9 at an absent, an empty, a \<open>null\<close>, a zero and a \<open>false\<close> option id.\<close>

theorem C9_missing_option_id_witness:
  "falsy (map_of (req_body \<lparr>req_user_id = ''X'', req_body = [], req_new_id = ''v1'', req_now = ''t''\<rparr>) ''pollOptionId'')
   \<and> submitVote unique_voter_poll \<lparr>req_user_id = ''X'', req_body = [], req_new_id = ''v1'', req_now = ''t''\<rparr> (world_of store0) =
       (Response 400 (error_body ''Poll option ID is required''), world_of store0)
   \<and> submitVote unique_voter_poll (vote_request ''X'' [] ''v1'') (world_of store0) =
       (Response 400 (error_body ''Poll option ID is required''), world_of store0)
   \<and> fst (submitVote unique_voter_poll
        \<lparr>req_user_id = ''X'', req_body = [(''pollOptionId'', JNull)], req_new_id = ''v1'', req_now = ''t''\<rparr>
        (world_of store0)) = Response 400 (error_body ''Poll option ID is required'')
   \<and> fst (submitVote unique_voter_poll
        \<lparr>req_user_id = ''X'', req_body = [(''pollOptionId'', JNum 0)], req_new_id = ''v1'', req_now = ''t''\<rparr>
        (world_of store0)) = Response 400 (error_body ''Poll option ID is required'')
   \<and> fst (submitVote unique_voter_poll
        \<lparr>req_user_id = ''X'', req_body = [(''pollOptionId'', JBool False)], req_new_id = ''v1'', req_now = ''t''\<rparr>
        (world_of store0)) = Response 400 (error_body ''Poll option ID is required'')"
  using C9_missing_option_id [of "\<lparr>req_user_id = ''X'', req_body = [], req_new_id = ''v1'', req_now = ''t''\<rparr>" unique_voter_poll "world_of store0"]
    C9_missing_option_id [of "vote_request ''X'' [] ''v1''" unique_voter_poll "world_of store0"]
    C9_missing_option_id [of "\<lparr>req_user_id = ''X'', req_body = [(''pollOptionId'', JNull)], req_new_id = ''v1'', req_now = ''t''\<rparr>" unique_voter_poll "world_of store0"]
    C9_missing_option_id [of "\<lparr>req_user_id = ''X'', req_body = [(''pollOptionId'', JNum 0)], req_new_id = ''v1'', req_now = ''t''\<rparr>" unique_voter_poll "world_of store0"]
    C9_missing_option_id [of "\<lparr>req_user_id = ''X'', req_body = [(''pollOptionId'', JBool False)], req_new_id = ''v1'', req_now = ''t''\<rparr>" unique_voter_poll "world_of store0"]
  by (simp add: vote_request_def)

text \<open>
  C2 (amended). For a \<open>pollOptionId\<close> that is present and truthy: when it is a string,
  \<open>submitVote\<close> answers 404 when no option has that id, whatever else holds; 403 when
  the option exists and its poll is not published, whoever the voter is (the owner
  included) and whether or not the voter has voted; 409 when the poll is published and
  the voter already holds a vote for an option of that poll. When it is not a string (a
  number, \<open>true\<close>, an array, an object), the store refuses the query and the answer is
  500. Each of these answers leaves the world unchanged.
\<close>

theorem C2_rejections_in_order:
  assumes "map_of (req_body req) ''pollOptionId'' = Some j" and "\<not> falsy (Some j)"
  shows "(\<forall>oid. j = JStr oid \<and> find_option (db w) oid = None \<longrightarrow>
            submitVote uq req w = (Response 404 (error_body ''Poll option not found''), w))
       \<and> (\<forall>oid opt p. j = JStr oid \<and> find_option (db w) oid = Some opt \<and>
              find_poll (db w) (option_pollId opt) = Some p \<and> \<not> poll_isPublished p \<longrightarrow>
            submitVote uq req w = (Response 403 (error_body ''Cannot vote on unpublished poll''), w))
       \<and> (\<forall>oid opt p v. j = JStr oid \<and> find_option (db w) oid = Some opt \<and>
              find_poll (db w) (option_pollId opt) = Some p \<and> poll_isPublished p \<and>
              v \<in> set (votes (db w)) \<and> vote_userId v = req_user_id req \<and>
              vote_poll (db w) v = Some (poll_id p) \<longrightarrow>
            submitVote uq req w =
              (Response 409 (error_body ''You have already voted in this poll''), w))
       \<and> ((\<forall>oid. j \<noteq> JStr oid) \<longrightarrow>
            submitVote uq req w = (Response 500 (error_body ''Internal server error''), w))"
proof -
  have sv: "submitVote uq req w =
     (case find_option (db w) oid of
        None \<Rightarrow> (Response 404 (error_body ''Poll option not found''), w)
      | Some opt \<Rightarrow>
          (case find_poll (db w) (option_pollId opt) of
             None \<Rightarrow> (Response 500 (error_body ''Internal server error''), w)
           | Some p \<Rightarrow>
               if \<not> poll_isPublished p
               then (Response 403 (error_body ''Cannot vote on unpublished poll''), w)
               else
                 (case vote_findFirst (db w) (req_user_id req) (poll_id p) of
                    Some v \<Rightarrow> (Response 409 (error_body ''You have already voted in this poll''), w)
                  | None \<Rightarrow>
                      (case vote_create uq (db w) (req_new_id req) (req_now req)
                              (req_user_id req) (JStr oid) of
                         Inl e \<Rightarrow> (on_catch e, w)
                       | Inr (v, s') \<Rightarrow>
                           (accepted_response v,
                            emit_to_room (poll_room (poll_id p)) ''pollUpdate''
                              (pollUpdate_payload (poll_id p)
                                 (getPollResultsInternal s' (poll_id p)))
                              (w\<lparr>db := s'\<rparr>))))))"
    if "j = JStr oid" for oid
  proof -
    have "map_of (req_body req) ''pollOptionId'' = Some (JStr oid)" and "oid \<noteq> []"
      using assms that by simp_all
    then show ?thesis by (rule submitVote_string_id)
  qed
  have c1: "\<forall>oid. j = JStr oid \<and> find_option (db w) oid = None \<longrightarrow>
            submitVote uq req w = (Response 404 (error_body ''Poll option not found''), w)"
    by (auto simp: sv)
  have c2: "\<forall>oid opt p. j = JStr oid \<and> find_option (db w) oid = Some opt \<and>
              find_poll (db w) (option_pollId opt) = Some p \<and> \<not> poll_isPublished p \<longrightarrow>
            submitVote uq req w = (Response 403 (error_body ''Cannot vote on unpublished poll''), w)"
    by (auto simp: sv)
  have c3: "\<forall>oid opt p v. j = JStr oid \<and> find_option (db w) oid = Some opt \<and>
              find_poll (db w) (option_pollId opt) = Some p \<and> poll_isPublished p \<and>
              v \<in> set (votes (db w)) \<and> vote_userId v = req_user_id req \<and>
              vote_poll (db w) v = Some (poll_id p) \<longrightarrow>
            submitVote uq req w =
              (Response 409 (error_body ''You have already voted in this poll''), w)"
  proof (intro allI impI)
    fix oid opt p v
    assume a: "j = JStr oid \<and> find_option (db w) oid = Some opt \<and>
      find_poll (db w) (option_pollId opt) = Some p \<and> poll_isPublished p \<and>
      v \<in> set (votes (db w)) \<and> vote_userId v = req_user_id req \<and>
      vote_poll (db w) v = Some (poll_id p)"
    then obtain v' where "vote_findFirst (db w) (req_user_id req) (poll_id p) = Some v'"
      using vote_findFirst_Some [of v "db w" "req_user_id req" "poll_id p"] by blast
    with a show "submitVote uq req w =
      (Response 409 (error_body ''You have already voted in this poll''), w)"
      by (simp add: sv)
  qed
  have c4: "(\<forall>oid. j \<noteq> JStr oid) \<longrightarrow>
            submitVote uq req w = (Response 500 (error_body ''Internal server error''), w)"
    using submitVote_non_string_id [OF assms] by blast
  show ?thesis
    by (rule conjI [OF c1 conjI [OF c2 conjI [OF c3 c4]]])
qed

lemma world_of_simps:
  "db (world_of s) = s" "rooms (world_of s) = (\<lambda>room. [])"
  "emitted (world_of s) = []" "delivered (world_of s) = []"
  by (simp_all add: world_of_def)

lemma vote_request_simps:
  "req_user_id (vote_request uid oid vid) = uid"
  "map_of (req_body (vote_request uid oid vid)) ''pollOptionId'' = Some (JStr oid)"
  "req_new_id (vote_request uid oid vid) = vid"
  by (simp_all add: vote_request_def)

lemma find_votes_update:
  "find_option (s\<lparr>votes := vs\<rparr>) oid = find_option s oid"
  "find_poll (s\<lparr>votes := vs\<rparr>) pid = find_poll s pid"
  "find_user (s\<lparr>votes := vs\<rparr>) uid = find_user s uid"
  "vote_poll (s\<lparr>votes := vs\<rparr>) v = vote_poll s v"
  "poll_options (s\<lparr>votes := vs\<rparr>) pid = poll_options s pid"
  by (simp_all add: find_option_def find_poll_def find_user_def vote_poll_def poll_options_def)

lemma store0_options:
  "find_option store0 ''A'' = Some optA"
  "find_option store0 ''B'' = Some optB"
  "find_option store0 ''C'' = Some optC"
  "find_option store0 ''D'' = Some optD"
  "find_option store0 ''E'' = Some optE"
  "find_option store0 ''Nope'' = None"
  by (simp_all add: find_option_def store0_def optA_def optB_def optC_def optD_def optE_def)

lemma store0_polls:
  "find_poll store0 ''P'' = Some pollP"
  "find_poll store0 ''Q'' = Some pollQ"
  "find_poll store0 ''R'' = None"
  by (simp_all add: find_poll_def store0_def pollP_def pollQ_def)

lemma store0_users:
  "find_user store0 ''X'' = Some userX"
  "find_user store0 ''Y'' = Some userY"
  "find_user store0 ''Z'' = Some userZ"
  by (simp_all add: find_user_def store0_def userX_def userY_def userZ_def)

lemma store0_votes: "votes store0 = []"
  by (simp add: store0_def)

lemma example_fields:
  "option_pollId optA = ''P''" "option_pollId optB = ''P''" "option_pollId optC = ''P''"
  "option_pollId optD = ''Q''" "option_pollId optE = ''Q''"
  "option_id optA = ''A''" "option_id optB = ''B''" "option_id optC = ''C''"
  "option_id optD = ''D''" "option_id optE = ''E''"
  "poll_id pollP = ''P''" "poll_id pollQ = ''Q''"
  "poll_isPublished pollP" "\<not> poll_isPublished pollQ"
  "poll_userId pollQ = ''Z''"
  "vote_userId (mk_vote vid uid oid) = uid" "vote_pollOptionId (mk_vote vid uid oid) = oid"
  by (simp_all add: optA_def optB_def optC_def optD_def optE_def pollP_def pollQ_def mk_vote_def)

text \<open>
  C2 (amended) at a missing option, at the owner \<open>Z\<close> voting on the unpublished poll
  \<open>Q\<close> (on which \<open>Z\<close> already holds a vote: 403 comes before 409), at \<open>X\<close> voting a
  second time on \<open>P\<close>, and at the option id \<open>true\<close>.
\<close>

theorem C2_rejections_in_order_witness:
  "submitVote unique_voter_poll (vote_request ''X'' ''Nope'' ''v1'') (world_of store0) =
     (Response 404 (error_body ''Poll option not found''), world_of store0)
   \<and> poll_userId pollQ = ''Z''
   \<and> submitVote unique_voter_poll (vote_request ''Z'' ''D'' ''v1'')
        (world_of (store0\<lparr>votes := [mk_vote ''v0'' ''Z'' ''E'']\<rparr>)) =
     (Response 403 (error_body ''Cannot vote on unpublished poll''),
      world_of (store0\<lparr>votes := [mk_vote ''v0'' ''Z'' ''E'']\<rparr>))
   \<and> submitVote unique_voter_poll (vote_request ''X'' ''C'' ''v4'') (world_of store111) =
     (Response 409 (error_body ''You have already voted in this poll''), world_of store111)
   \<and> submitVote unique_voter_poll
        \<lparr>req_user_id = ''X'', req_body = [(''pollOptionId'', JBool True)], req_new_id = ''v1'',
         req_now = ''t''\<rparr> (world_of store0) =
     (Response 500 (error_body ''Internal server error''), world_of store0)"
proof -
  have s111: "store111 = store0\<lparr>votes := [mk_vote ''v1'' ''X'' ''A'', mk_vote ''v2'' ''Y'' ''B'',
                                mk_vote ''v3'' ''Z'' ''C'']\<rparr>"
    by (simp add: store111_def)
  have c1: "submitVote unique_voter_poll (vote_request ''X'' ''Nope'' ''v1'') (world_of store0) =
     (Response 404 (error_body ''Poll option not found''), world_of store0)"
    by (rule C2_rejections_in_order [of "vote_request ''X'' ''Nope'' ''v1''" "JStr ''Nope''"
          "world_of store0" unique_voter_poll, THEN conjunct1, rule_format, of "''Nope''"])
       (simp_all add: vote_request_simps world_of_simps store0_options)
  have c2: "submitVote unique_voter_poll (vote_request ''Z'' ''D'' ''v1'')
        (world_of (store0\<lparr>votes := [mk_vote ''v0'' ''Z'' ''E'']\<rparr>)) =
     (Response 403 (error_body ''Cannot vote on unpublished poll''),
      world_of (store0\<lparr>votes := [mk_vote ''v0'' ''Z'' ''E'']\<rparr>))"
    by (rule C2_rejections_in_order [of "vote_request ''Z'' ''D'' ''v1''" "JStr ''D''"
          "world_of (store0\<lparr>votes := [mk_vote ''v0'' ''Z'' ''E'']\<rparr>)" unique_voter_poll,
          THEN conjunct2, THEN conjunct1, rule_format, of "''D''" optD pollQ])
       (simp_all add: vote_request_simps world_of_simps store0_options store0_polls
          example_fields find_votes_update)
  have c3: "submitVote unique_voter_poll (vote_request ''X'' ''C'' ''v4'') (world_of store111) =
     (Response 409 (error_body ''You have already voted in this poll''), world_of store111)"
    unfolding s111
    by (rule C2_rejections_in_order [of "vote_request ''X'' ''C'' ''v4''" "JStr ''C''"
          "world_of (store0\<lparr>votes := [mk_vote ''v1'' ''X'' ''A'', mk_vote ''v2'' ''Y'' ''B'',
                                mk_vote ''v3'' ''Z'' ''C'']\<rparr>)" unique_voter_poll,
          THEN conjunct2, THEN conjunct2, THEN conjunct1, rule_format,
          of "''C''" optC pollP "mk_vote ''v1'' ''X'' ''A''"])
       (simp_all add: vote_request_simps world_of_simps store0_options store0_polls
          example_fields find_votes_update vote_poll_def)
  have c4: "submitVote unique_voter_poll
        \<lparr>req_user_id = ''X'', req_body = [(''pollOptionId'', JBool True)], req_new_id = ''v1'',
         req_now = ''t''\<rparr> (world_of store0) =
     (Response 500 (error_body ''Internal server error''), world_of store0)"
    by (rule C2_rejections_in_order [of "\<lparr>req_user_id = ''X'',
          req_body = [(''pollOptionId'', JBool True)], req_new_id = ''v1'', req_now = ''t''\<rparr>"
          "JBool True" "world_of store0" unique_voter_poll,
          THEN conjunct2, THEN conjunct2, THEN conjunct2, rule_format])
       simp_all
  show ?thesis using c1 c2 c3 c4 by (simp add: example_fields)
qed

text \<open>
  C2 as stated fails: an option id that is a number, or an array, is the id of no
  option, and the answer is 500, not 404.
\<close>

theorem C2_non_string_id_is_500:
  "JNum 5 \<notin> set (map (\<lambda>opt. JStr (option_id opt)) (pollOptions store0))
   \<and> submitVote unique_voter_poll
        \<lparr>req_user_id = ''X'', req_body = [(''pollOptionId'', JNum 5)], req_new_id = ''v1'',
         req_now = ''t''\<rparr> (world_of store0) =
     (Response 500 (error_body ''Internal server error''), world_of store0)
   \<and> JArr [JStr ''A''] \<notin> set (map (\<lambda>opt. JStr (option_id opt)) (pollOptions store0))
   \<and> submitVote unique_voter_poll
        \<lparr>req_user_id = ''X'', req_body = [(''pollOptionId'', JArr [JStr ''A''])],
         req_new_id = ''v1'', req_now = ''t''\<rparr> (world_of store0) =
     (Response 500 (error_body ''Internal server error''), world_of store0)
   \<and> status (Response 500 (error_body ''Internal server error'')) \<noteq> 404"
  by (simp add: submitVote_def pollOption_findUnique_def on_catch_def store0_def)

text \<open>
  C10. \<open>getPollResults\<close> never changes the world; it answers 404 exactly when no poll
  has the given id; for an existing poll, published or not, it answers 200 with the tally
  of the poll: its id and question, the total, and for each option that the store
  returns its id, text, count and percentage. When the ids of the options are unique and
  the store holds at most \<open>2^53\<close> votes, the options returned are the options of the
  poll, each once, the total is the number of the votes cast for options of the poll, and
  each count is the number of the votes for the option. The answer does not depend on the
  caller.
\<close>

theorem C10_results_for_every_existing_poll:
  "snd (getPollResults req w) = w
   \<and> (status (fst (getPollResults req w)) = 404 \<longleftrightarrow> find_poll (db w) (rr_pollId req) = None)
   \<and> (find_poll (db w) (rr_pollId req) = None \<longrightarrow>
        fst (getPollResults req w) = Response 404 (error_body ''Poll not found''))
   \<and> (\<forall>p. find_poll (db w) (rr_pollId req) = Some p \<longrightarrow>
        fst (getPollResults req w) = Response 200 (JObj [(''results'', tally_json (db w) p)]))
   \<and> (\<forall>p. find_poll (db w) (rr_pollId req) = Some p \<and>
          distinct (map option_id (pollOptions (db w))) \<and> length (votes (db w)) \<le> 2 ^ 53 \<longrightarrow>
        mset (poll_options (db w) (poll_id p)) = mset (options_created (db w) (poll_id p)) \<and>
        total_votes (db w) (poll_id p) =
          of_nat (length (filter (\<lambda>v. vote_poll (db w) v = Some (poll_id p)) (votes (db w)))) \<and>
        (\<forall>opt\<in>set (poll_options (db w) (poll_id p)).
           number_of_count (count_votes (db w) (option_id opt)) =
             of_nat (length (filter (\<lambda>v. vote_pollOptionId v = option_id opt) (votes (db w))))))
   \<and> getPollResults (req\<lparr>rr_user_id := caller\<rparr>) w = getPollResults req w"
proof -
  have c1: "snd (getPollResults req w) = w"
    by (simp add: getPollResults_def split: option.splits)
  have c2: "status (fst (getPollResults req w)) = 404 \<longleftrightarrow> find_poll (db w) (rr_pollId req) = None"
    by (cases "find_poll (db w) (rr_pollId req)")
       (simp_all add: getPollResults_def getPollResultsInternal_eq)
  have c3: "find_poll (db w) (rr_pollId req) = None \<longrightarrow>
        fst (getPollResults req w) = Response 404 (error_body ''Poll not found'')"
    by (simp add: getPollResults_def getPollResultsInternal_eq)
  have c4: "\<forall>p. find_poll (db w) (rr_pollId req) = Some p \<longrightarrow>
        fst (getPollResults req w) = Response 200 (JObj [(''results'', tally_json (db w) p)])"
  proof (intro allI impI)
    fix p
    assume fp: "find_poll (db w) (rr_pollId req) = Some p"
    then obtain r where r: "getPollResultsInternal (db w) (rr_pollId req) = Some r"
      by (simp add: getPollResultsInternal_eq)
    have "json_of_results (Some r) = tally_json (db w) p"
      using tally_json_eq [OF fp] by (simp only: r)
    then show "fst (getPollResults req w) =
        Response 200 (JObj [(''results'', tally_json (db w) p)])"
      by (simp add: getPollResults_def r)
  qed
  have c5: "\<forall>p. find_poll (db w) (rr_pollId req) = Some p \<and>
          distinct (map option_id (pollOptions (db w))) \<and> length (votes (db w)) \<le> 2 ^ 53 \<longrightarrow>
        mset (poll_options (db w) (poll_id p)) = mset (options_created (db w) (poll_id p)) \<and>
        total_votes (db w) (poll_id p) =
          of_nat (length (filter (\<lambda>v. vote_poll (db w) v = Some (poll_id p)) (votes (db w)))) \<and>
        (\<forall>opt\<in>set (poll_options (db w) (poll_id p)).
           number_of_count (count_votes (db w) (option_id opt)) =
             of_nat (length (filter (\<lambda>v. vote_pollOptionId v = option_id opt) (votes (db w)))))"
  proof (intro allI impI)
    fix p
    assume a: "find_poll (db w) (rr_pollId req) = Some p \<and>
          distinct (map option_id (pollOptions (db w))) \<and> length (votes (db w)) \<le> 2 ^ 53"
    then have d: "distinct (map option_id (pollOptions (db w)))"
      and l: "length (votes (db w)) \<le> 2 ^ 53" by simp_all
    have t: "total_votes (db w) (poll_id p) =
          of_nat (length (filter (\<lambda>v. vote_poll (db w) v = Some (poll_id p)) (votes (db w))))"
      using d l by (rule total_votes_cast)
    have e: "\<forall>opt\<in>set (poll_options (db w) (poll_id p)).
           number_of_count (count_votes (db w) (option_id opt)) =
             of_nat (length (filter (\<lambda>v. vote_pollOptionId v = option_id opt) (votes (db w))))"
      using count_exact [OF l] by (simp add: count_votes_def)
    show "mset (poll_options (db w) (poll_id p)) = mset (options_created (db w) (poll_id p)) \<and>
        total_votes (db w) (poll_id p) =
          of_nat (length (filter (\<lambda>v. vote_poll (db w) v = Some (poll_id p)) (votes (db w)))) \<and>
        (\<forall>opt\<in>set (poll_options (db w) (poll_id p)).
           number_of_count (count_votes (db w) (option_id opt)) =
             of_nat (length (filter (\<lambda>v. vote_pollOptionId v = option_id opt) (votes (db w)))))"
      using t e poll_options_mset [of "db w" "poll_id p"] by blast
  qed
  have c6: "getPollResults (req\<lparr>rr_user_id := caller\<rparr>) w = getPollResults req w"
    by (simp add: getPollResults_def)
  show ?thesis
    by (rule conjI [OF c1 conjI [OF c2 conjI [OF c3 conjI [OF c4 conjI [OF c5 c6]]]]])
qed

lemma number_zero: "number_of_count 0 = 0" "js_add 0 0 = 0"
  by (simp_all add: number_of_count_def js_add_def fl_def)

lemma store_draft_facts:
  "find_poll store_draft ''Q'' = Some pollQ"
  "find_poll store_draft ''P'' = Some pollP"
  "find_poll store_draft ''R'' = None"
  "poll_options store_draft ''Q'' = [optE, optD]"
  "poll_options store_draft ''P'' = [optC, optB, optA]"
  "options_created store_draft ''Q'' = [optD, optE]"
  "options_created store_draft ''P'' = [optA, optB, optC]"
  "count_votes store_draft ''D'' = 1"
  "count_votes store_draft ''E'' = 2"
  "count_votes store_draft ''A'' = 2"
  "count_votes store_draft ''B'' = 1"
  "count_votes store_draft ''C'' = 0"
  "distinct (map option_id (pollOptions store_draft))"
  "length (votes store_draft) = 6"
  by (simp_all add: store_draft_def store_moved_def store0_def find_poll_def poll_options_def
      options_created_def count_votes_def pollP_def pollQ_def optA_def optB_def optC_def
      optD_def optE_def mk_vote_def)

lemma small_counts:
  "number_of_count (Suc 0) = 1" "number_of_count 1 = 1" "number_of_count 2 = 2"
  "js_add 0 1 = 1" "js_add 0 2 = 2" "js_add 2 1 = 3" "js_add 1 1 = 2" "js_add 1 2 = 3"
  using fl_of_nat_exact [of 1] fl_of_nat_exact [of 2] fl_of_nat_exact [of 3]
  by (simp_all add: number_of_count_def js_add_def)

lemma tally_draft:
  "tally_json store_draft pollQ =
     JObj [(''pollId'', JStr ''Q''), (''question'', JStr ''Draft?''), (''totalVotes'', JNum 3),
           (''options'',
            JArr [JObj [(''id'', JStr ''E''), (''text'', JStr ''Epsilon''),
                        (''voteCount'', JNum 2), (''percentage'', JNum 67)],
                  JObj [(''id'', JStr ''D''), (''text'', JStr ''Delta''),
                        (''voteCount'', JNum 1), (''percentage'', JNum 33)]])]"
proof -
  have p2: "Math_round (js_mul (js_div 2 3) 100) = 67"
    using percentage_2_3 by (simp add: percentage_def)
  have p1: "Math_round (js_mul (js_div 1 3) 100) = 33"
    using percentage_1_3 by (simp add: percentage_def)
  show ?thesis
    by (simp add: example_fields store_draft_facts small_counts p1 p2)
       (simp add: pollQ_def optD_def optE_def)
qed

lemma tally_draft_P:
  "tally_json store_draft pollP =
     JObj [(''pollId'', JStr ''P''), (''question'', JStr ''Which one?''), (''totalVotes'', JNum 3),
           (''options'',
            JArr [JObj [(''id'', JStr ''C''), (''text'', JStr ''Gamma''),
                        (''voteCount'', JNum 0), (''percentage'', JNum 0)],
                  JObj [(''id'', JStr ''B''), (''text'', JStr ''Beta''),
                        (''voteCount'', JNum 1), (''percentage'', JNum 33)],
                  JObj [(''id'', JStr ''A''), (''text'', JStr ''Alpha''),
                        (''voteCount'', JNum 2), (''percentage'', JNum 67)]])]"
proof -
  have p2: "Math_round (js_mul (js_div 2 3) 100) = 67"
    using percentage_2_3 by (simp add: percentage_def)
  have p1: "Math_round (js_mul (js_div 1 3) 100) = 33"
    using percentage_1_3 by (simp add: percentage_def)
  have p0: "Math_round (js_mul (js_div 0 3) 100) = 0"
    using percentage_0_3 by (simp add: percentage_def)
  show ?thesis
    by (simp add: example_fields store_draft_facts small_counts number_zero p0 p1 p2)
       (simp add: pollP_def optA_def optB_def optC_def)
qed

text \<open>
  C10 in a store that returns the options of each poll in the reverse of their creation:
  at the unpublished poll \<open>Q\<close> with three votes, for two callers; at the published poll
  \<open>P\<close> with three votes; and at a poll that does not exist.
\<close>

theorem C10_results_for_every_existing_poll_witness:
  "find_poll (db (world_of store_draft)) ''Q'' = Some pollQ \<and> \<not> poll_isPublished pollQ
   \<and> map option_id (poll_options (db (world_of store_draft)) ''Q'') = [''E'', ''D'']
   \<and> getPollResults \<lparr>rr_user_id = ''X'', rr_pollId = ''Q''\<rparr> (world_of store_draft) =
     (Response 200 (JObj [(''results'',
        JObj [(''pollId'', JStr ''Q''), (''question'', JStr ''Draft?''), (''totalVotes'', JNum 3),
              (''options'',
               JArr [JObj [(''id'', JStr ''E''), (''text'', JStr ''Epsilon''),
                           (''voteCount'', JNum 2), (''percentage'', JNum 67)],
                     JObj [(''id'', JStr ''D''), (''text'', JStr ''Delta''),
                           (''voteCount'', JNum 1), (''percentage'', JNum 33)]])])]),
      world_of store_draft)
   \<and> getPollResults \<lparr>rr_user_id = ''Z'', rr_pollId = ''Q''\<rparr> (world_of store_draft) =
     getPollResults \<lparr>rr_user_id = ''X'', rr_pollId = ''Q''\<rparr> (world_of store_draft)
   \<and> distinct (map option_id (pollOptions (db (world_of store_draft))))
   \<and> length (votes (db (world_of store_draft))) \<le> 2 ^ 53
   \<and> total_votes (db (world_of store_draft)) ''Q'' = 3
   \<and> find_poll (db (world_of store_draft)) ''P'' = Some pollP \<and> poll_isPublished pollP
   \<and> map option_id (poll_options (db (world_of store_draft)) ''P'') = [''C'', ''B'', ''A'']
   \<and> getPollResults \<lparr>rr_user_id = ''X'', rr_pollId = ''P''\<rparr> (world_of store_draft) =
     (Response 200 (JObj [(''results'',
        JObj [(''pollId'', JStr ''P''), (''question'', JStr ''Which one?''), (''totalVotes'', JNum 3),
              (''options'',
               JArr [JObj [(''id'', JStr ''C''), (''text'', JStr ''Gamma''),
                           (''voteCount'', JNum 0), (''percentage'', JNum 0)],
                     JObj [(''id'', JStr ''B''), (''text'', JStr ''Beta''),
                           (''voteCount'', JNum 1), (''percentage'', JNum 33)],
                     JObj [(''id'', JStr ''A''), (''text'', JStr ''Alpha''),
                           (''voteCount'', JNum 2), (''percentage'', JNum 67)]])])]),
      world_of store_draft)
   \<and> getPollResults \<lparr>rr_user_id = ''X'', rr_pollId = ''R''\<rparr> (world_of store_draft) =
     (Response 404 (error_body ''Poll not found''), world_of store_draft)"
proof -
  note tQ = C10_results_for_every_existing_poll [of "\<lparr>rr_user_id = ''X'', rr_pollId = ''Q''\<rparr>"
      "world_of store_draft" "''Z''"]
  note tP = C10_results_for_every_existing_poll [of "\<lparr>rr_user_id = ''X'', rr_pollId = ''P''\<rparr>"
      "world_of store_draft" "''Z''"]
  note tR = C10_results_for_every_existing_poll [of "\<lparr>rr_user_id = ''X'', rr_pollId = ''R''\<rparr>"
      "world_of store_draft" "''Z''"]
  have fQ: "find_poll (db (world_of store_draft)) ''Q'' = Some pollQ"
    by (simp add: world_of_simps store_draft_facts)
  have fP: "find_poll (db (world_of store_draft)) ''P'' = Some pollP"
    by (simp add: world_of_simps store_draft_facts)
  have d: "distinct (map option_id (pollOptions (db (world_of store_draft))))"
    by (simp add: world_of_simps store_draft_facts)
  have l: "length (votes (db (world_of store_draft))) \<le> 2 ^ 53"
    by (simp add: world_of_simps store_draft_facts)
  have vp: "length (filter (\<lambda>v. vote_poll (db (world_of store_draft)) v = Some ''Q'')
      (votes (db (world_of store_draft)))) = 3"
    by (simp add: world_of_simps store_draft_def store_moved_def find_votes_update vote_poll_def
        example_fields find_option_def store0_def optA_def optB_def optC_def optD_def optE_def)
  have c1: "fst (getPollResults \<lparr>rr_user_id = ''X'', rr_pollId = ''Q''\<rparr> (world_of store_draft)) =
      Response 200 (JObj [(''results'', tally_json (db (world_of store_draft)) pollQ)])"
    using tQ [THEN conjunct2, THEN conjunct2, THEN conjunct2, THEN conjunct1, THEN spec,
        of pollQ] fQ by simp
  have s1: "snd (getPollResults \<lparr>rr_user_id = ''X'', rr_pollId = ''Q''\<rparr> (world_of store_draft)) =
      world_of store_draft"
    by (rule tQ [THEN conjunct1])
  have r1: "getPollResults \<lparr>rr_user_id = ''X'', rr_pollId = ''Q''\<rparr> (world_of store_draft) =
     (Response 200 (JObj [(''results'', tally_json store_draft pollQ)]), world_of store_draft)"
    using c1 s1 by (simp add: prod_eq_iff world_of_simps)
  have i1: "getPollResults \<lparr>rr_user_id = ''Z'', rr_pollId = ''Q''\<rparr> (world_of store_draft) =
     getPollResults \<lparr>rr_user_id = ''X'', rr_pollId = ''Q''\<rparr> (world_of store_draft)"
    using tQ [THEN conjunct2, THEN conjunct2, THEN conjunct2, THEN conjunct2, THEN conjunct2]
    by simp
  have t1: "total_votes (db (world_of store_draft)) ''Q'' = 3"
    using tQ [THEN conjunct2, THEN conjunct2, THEN conjunct2, THEN conjunct2, THEN conjunct1,
        THEN spec, of pollQ] fQ d l vp
    by (simp add: example_fields)
  have c2: "fst (getPollResults \<lparr>rr_user_id = ''X'', rr_pollId = ''P''\<rparr> (world_of store_draft)) =
      Response 200 (JObj [(''results'', tally_json (db (world_of store_draft)) pollP)])"
    using tP [THEN conjunct2, THEN conjunct2, THEN conjunct2, THEN conjunct1, THEN spec,
        of pollP] fP by simp
  have s2: "snd (getPollResults \<lparr>rr_user_id = ''X'', rr_pollId = ''P''\<rparr> (world_of store_draft)) =
      world_of store_draft"
    by (rule tP [THEN conjunct1])
  have r2: "getPollResults \<lparr>rr_user_id = ''X'', rr_pollId = ''P''\<rparr> (world_of store_draft) =
     (Response 200 (JObj [(''results'', tally_json store_draft pollP)]), world_of store_draft)"
    using c2 s2 by (simp add: prod_eq_iff world_of_simps)
  have c3: "fst (getPollResults \<lparr>rr_user_id = ''X'', rr_pollId = ''R''\<rparr> (world_of store_draft)) =
      Response 404 (error_body ''Poll not found'')"
    using tR [THEN conjunct2, THEN conjunct2, THEN conjunct1]
    by (simp add: world_of_simps store_draft_facts)
  have s3: "snd (getPollResults \<lparr>rr_user_id = ''X'', rr_pollId = ''R''\<rparr> (world_of store_draft)) =
      world_of store_draft"
    by (rule tR [THEN conjunct1])
  have r3: "getPollResults \<lparr>rr_user_id = ''X'', rr_pollId = ''R''\<rparr> (world_of store_draft) =
     (Response 404 (error_body ''Poll not found''), world_of store_draft)"
    using c3 s3 by (simp add: prod_eq_iff)
  have nQ: "\<not> poll_isPublished pollQ" by (simp add: example_fields)
  have pP: "poll_isPublished pollP" by (simp add: example_fields)
  have oQ: "map option_id (poll_options (db (world_of store_draft)) ''Q'') = [''E'', ''D'']"
    by (simp add: world_of_simps store_draft_facts example_fields)
  have oP: "map option_id (poll_options (db (world_of store_draft)) ''P'') = [''C'', ''B'', ''A'']"
    by (simp add: world_of_simps store_draft_facts example_fields)
  show ?thesis
    by (intro conjI)
       (rule fQ nQ oQ r1 [unfolded tally_draft] i1 d l t1 fP pP oP r2 [unfolded tally_draft_P] r3)+
qed
section \<open>Conflicts, broadcasts and rejections\<close>

lemma vote_create_P2002:
  assumes "v \<in> set (votes s)"
    and "uq s \<lparr>vote_id = new_id, vote_createdAt = now, vote_userId = uid, vote_pollOptionId = oid\<rparr> v"
  shows "vote_create uq s new_id now uid (JStr oid) = Inl (PrismaKnownRequestError ''P2002'')"
proof -
  have "list_ex (uq s \<lparr>vote_id = new_id, vote_createdAt = now, vote_userId = uid,
      vote_pollOptionId = oid\<rparr>) (votes s)"
    using assms by (auto simp: list_ex_iff)
  then show ?thesis by (simp add: vote_create_def)
qed

lemma on_catch_P2002:
  "on_catch (PrismaKnownRequestError ''P2002'') =
     Response 409 (error_body ''You have already voted for this option'')"
  by (simp add: on_catch_def)

text \<open>
  C4 (amended). The two ways in which \<open>submitVote\<close> detects a second vote answer with
  the same status, 409, and leave the world unchanged: the pre-flight lookup that finds a
  vote of the voter in the poll, with the message \<open>You have already voted in this poll\<close>,
  and the insert that fails the uniqueness constraint (\<open>P2002\<close>), with the message \<open>You
  have already voted for this option\<close>.
\<close>

theorem C4_both_conflicts_are_409:
  "(\<forall>v. v \<in> set (votes (db w)) \<and> vote_userId v = req_user_id req \<and>
          vote_poll (db w) v = Some (poll_id p) \<longrightarrow>
      advance uq req (AtFindVote opt p) w =
        (Done (Response 409 (error_body ''You have already voted in this poll'')), w))
   \<and> (\<forall>v oid. map_of (req_body req) ''pollOptionId'' = Some (JStr oid) \<and>
          v \<in> set (votes (db w)) \<and>
          uq (db w) \<lparr>vote_id = req_new_id req, vote_createdAt = req_now req,
                     vote_userId = req_user_id req, vote_pollOptionId = oid\<rparr> v \<longrightarrow>
      advance uq req (AtCreate opt p) w =
        (Done (Response 409 (error_body ''You have already voted for this option'')), w))"
proof (intro conjI allI impI)
  fix v
  assume "v \<in> set (votes (db w)) \<and> vote_userId v = req_user_id req \<and>
          vote_poll (db w) v = Some (poll_id p)"
  then obtain v' where "vote_findFirst (db w) (req_user_id req) (poll_id p) = Some v'"
    using vote_findFirst_Some [of v "db w" "req_user_id req" "poll_id p"] by blast
  then show "advance uq req (AtFindVote opt p) w =
        (Done (Response 409 (error_body ''You have already voted in this poll'')), w)"
    by simp
next
  fix v oid
  assume a: "map_of (req_body req) ''pollOptionId'' = Some (JStr oid) \<and>
          v \<in> set (votes (db w)) \<and>
          uq (db w) \<lparr>vote_id = req_new_id req, vote_createdAt = req_now req,
                     vote_userId = req_user_id req, vote_pollOptionId = oid\<rparr> v"
  then have "vote_create uq (db w) (req_new_id req) (req_now req) (req_user_id req) (JStr oid) =
      Inl (PrismaKnownRequestError ''P2002'')"
    by (intro vote_create_P2002 [of v]) simp_all
  with a show "advance uq req (AtCreate opt p) w =
        (Done (Response 409 (error_body ''You have already voted for this option'')), w)"
    by (simp add: on_catch_P2002)
qed

lemma turn_simps:
  "turn uq (w, (r, pc) # ps) 0 = (snd (advance uq r pc w), (r, fst (advance uq r pc w)) # ps)"
  "turn uq (w, p # ps) (Suc i) = (fst (turn uq (w, ps) i), p # snd (turn uq (w, ps) i))"
  "turn uq (w, []) i = (w, [])"
  by (simp_all add: turn_def Let_def)

lemma run_simps:
  "run uq [] c = c"
  "run uq (i # sched) c = run uq sched (turn uq c i)"
  by (simp_all add: run_def)

lemma turn_numeral:
  "turn uq (w, p # ps) (numeral k) =
     (fst (turn uq (w, ps) (pred_numeral k)), p # snd (turn uq (w, ps) (pred_numeral k)))"
  by (simp add: numeral_eq_Suc turn_simps)

lemma vote_create_votes_update:
  "vote_create uq (s\<lparr>votes := vs\<rparr>) new_id now uid (JStr oid) =
     (let v = \<lparr>vote_id = new_id, vote_createdAt = now, vote_userId = uid, vote_pollOptionId = oid\<rparr>
      in if list_ex (uq (s\<lparr>votes := vs\<rparr>) v) vs then Inl (PrismaKnownRequestError ''P2002'')
         else
           (case (find_user s uid, find_option s oid) of
              (Some u, Some opt) \<Rightarrow>
                (case find_poll s (option_pollId opt) of
                   None \<Rightarrow> Inl OtherError
                 | Some p \<Rightarrow>
                     Inr (\<lparr>cv_vote = v, cv_user = u, cv_option = opt, cv_poll = p\<rparr>,
                          s\<lparr>votes := vs @ [v]\<rparr>))
            | _ \<Rightarrow> Inl (PrismaKnownRequestError ''P2003'')))"
  by (simp add: vote_create_def find_votes_update Let_def split: option.splits)

lemma emit_to_room_simps:
  "db (emit_to_room room ev payload w) = db w"
  "rooms (emit_to_room room ev payload w) = rooms w"
  "emitted (emit_to_room room ev payload w) = emitted w @ [(room, ev, payload)]"
  "delivered (emit_to_room room ev payload w) = delivered w @ deliveries room ev payload w"
  by (simp_all add: emit_to_room_def)

text \<open>C4 (amended) at \<open>X\<close> voting for \<open>C\<close> when \<open>X\<close>'s vote for \<open>A\<close> is in the store.\<close>

theorem C4_both_conflicts_are_409_witness:
  "advance unique_voter_poll (vote_request ''X'' ''C'' ''v4'') (AtFindVote optC pollP)
     (world_of store111) =
     (Done (Response 409 (error_body ''You have already voted in this poll'')), world_of store111)
   \<and> advance unique_voter_poll (vote_request ''X'' ''C'' ''v4'') (AtCreate optC pollP)
     (world_of store111) =
     (Done (Response 409 (error_body ''You have already voted for this option'')),
      world_of store111)"
proof -
  have v: "mk_vote ''v1'' ''X'' ''A'' \<in> set (votes (db (world_of store111)))"
    by (simp add: store111_def world_of_simps)
  have vp: "vote_poll (db (world_of store111)) (mk_vote ''v1'' ''X'' ''A'') = Some ''P''"
    by (simp add: store111_def world_of_simps vote_poll_def find_votes_update store0_options
        example_fields)
  have np: "vote_poll (db (world_of store111))
      \<lparr>vote_id = ''v4'', vote_createdAt = req_now (vote_request ''X'' ''C'' ''v4''),
       vote_userId = ''X'', vote_pollOptionId = ''C''\<rparr> = Some ''P''"
    by (simp add: store111_def world_of_simps vote_poll_def find_votes_update store0_options
        example_fields)
  note t = C4_both_conflicts_are_409 [of "world_of store111" "vote_request ''X'' ''C'' ''v4''"
      pollP unique_voter_poll optC]
  have c1: "advance unique_voter_poll (vote_request ''X'' ''C'' ''v4'') (AtFindVote optC pollP)
     (world_of store111) =
     (Done (Response 409 (error_body ''You have already voted in this poll'')), world_of store111)"
    by (rule t [THEN conjunct1, rule_format, of "mk_vote ''v1'' ''X'' ''A''"])
       (simp add: v vp vote_request_simps example_fields)
  have c2: "advance unique_voter_poll (vote_request ''X'' ''C'' ''v4'') (AtCreate optC pollP)
     (world_of store111) =
     (Done (Response 409 (error_body ''You have already voted for this option'')),
      world_of store111)"
    by (rule t [THEN conjunct2, rule_format, of "''C''" "mk_vote ''v1'' ''X'' ''A''"])
       (simp add: v vp np vote_request_simps example_fields unique_voter_poll_def)
  show ?thesis using c1 c2 by simp
qed

text \<open>
  C4 as stated fails: the two rejections do not have the same body. Three requests of
  \<open>X\<close> on the poll \<open>P\<close>: the first two pass the pre-flight lookup before either
  inserts; the first insert succeeds, the second fails the constraint; the third request
  starts afterwards and is stopped by the pre-flight lookup.
\<close>

theorem C4_conflict_bodies_differ:
  "map snd (tl (snd (run unique_voter_poll [0, 1, 0, 1, 0, 1, 0, 2, 2]
     (start (world_of store0)
        [vote_request ''X'' ''A'' ''v1'', vote_request ''X'' ''C'' ''v2'',
         vote_request ''X'' ''B'' ''v3''])))) =
   [Done (Response 409 (error_body ''You have already voted for this option'')),
    Done (Response 409 (error_body ''You have already voted in this poll''))]
   \<and> body (Response 409 (error_body ''You have already voted for this option'')) \<noteq>
     body (Response 409 (error_body ''You have already voted in this poll''))"
  by (simp add: start_def run_simps turn_simps turn_numeral world_of_simps vote_request_simps
      pollOption_findUnique_def store0_options store0_polls store0_users store0_votes
      find_votes_update example_fields vote_findFirst_def vote_create_def unique_voter_poll_def
      vote_poll_def on_catch_def emit_to_room_simps error_body_def Let_def)

lemma vote_create_Inr:
  assumes "vote_create uq s new_id now uid idv = Inr (c, s')"
  shows "s' = s\<lparr>votes := votes s @ [cv_vote c]\<rparr>"
  using assms
  by (auto simp: vote_create_def Let_def split: json.splits if_splits option.splits)

lemma submitVote_cases:
  obtains (rejected) r where "submitVote uq req w = (r, w)"
      and "status r \<in> {400, 404, 403, 409, 500}"
  | (accepted) oid opt p c where
      "map_of (req_body req) ''pollOptionId'' = Some (JStr oid)"
      and "find_option (db w) oid = Some opt"
      and "find_poll (db w) (option_pollId opt) = Some p"
      and "vote_create uq (db w) (req_new_id req) (req_now req) (req_user_id req) (JStr oid) =
          Inr (c, (db w)\<lparr>votes := votes (db w) @ [cv_vote c]\<rparr>)"
      and "submitVote uq req w =
          (accepted_response c,
           emit_to_room (poll_room (poll_id p)) ''pollUpdate''
             (pollUpdate_payload (poll_id p)
                (getPollResultsInternal ((db w)\<lparr>votes := votes (db w) @ [cv_vote c]\<rparr>) (poll_id p)))
             (w\<lparr>db := (db w)\<lparr>votes := votes (db w) @ [cv_vote c]\<rparr>\<rparr>))"
proof (cases "falsy (map_of (req_body req) ''pollOptionId'')")
  case True
  then have "submitVote uq req w = (Response 400 (error_body ''Poll option ID is required''), w)"
    by (rule submitVote_falsy)
  then show ?thesis by (rule rejected) simp
next
  case False
  then obtain j where j: "map_of (req_body req) ''pollOptionId'' = Some j"
    by (cases "map_of (req_body req) ''pollOptionId''") auto
  show ?thesis
  proof (cases "\<exists>oid. j = JStr oid")
    case True
    then obtain oid where oid: "j = JStr oid" by blast
    with False j have ne: "oid \<noteq> []" by simp
    note sv = submitVote_string_id [OF j [unfolded oid] ne, of uq w]
    show ?thesis
    proof (cases "vote_create uq (db w) (req_new_id req) (req_now req) (req_user_id req) (JStr oid)")
      case (Inl e)
      have "\<exists>r. submitVote uq req w = (r, w) \<and> status r \<in> {400, 404, 403, 409, 500}"
        unfolding sv using Inl by (auto simp: on_catch_def split: option.splits exn.splits)
      then obtain r where "submitVote uq req w = (r, w)"
        and "status r \<in> {400, 404, 403, 409, 500}" by blast
      then show ?thesis by (rule rejected)
    next
      case (Inr cs)
      obtain c s' where cs: "cs = (c, s')" by (cases cs)
      have s': "s' = (db w)\<lparr>votes := votes (db w) @ [cv_vote c]\<rparr>"
        using Inr unfolding cs by (rule vote_create_Inr)
      show ?thesis
      proof (cases "find_option (db w) oid")
        case None
        then have "submitVote uq req w = (Response 404 (error_body ''Poll option not found''), w)"
          by (simp add: sv)
        then show ?thesis by (rule rejected) simp
      next
        case (Some opt)
        show ?thesis
        proof (cases "find_poll (db w) (option_pollId opt)")
          case None
          then have "submitVote uq req w = (Response 500 (error_body ''Internal server error''), w)"
            using Some by (simp add: sv)
          then show ?thesis by (rule rejected) simp
        next
          case (Some p)
          show ?thesis
          proof (cases "poll_isPublished p \<and>
              vote_findFirst (db w) (req_user_id req) (poll_id p) = None")
            case True
            show ?thesis
              using j [unfolded oid] \<open>find_option (db w) oid = Some opt\<close> Some
                Inr [unfolded cs s']
            proof (rule accepted)
              show "submitVote uq req w =
                (accepted_response c,
                 emit_to_room (poll_room (poll_id p)) ''pollUpdate''
                   (pollUpdate_payload (poll_id p)
                      (getPollResultsInternal ((db w)\<lparr>votes := votes (db w) @ [cv_vote c]\<rparr>) (poll_id p)))
                   (w\<lparr>db := (db w)\<lparr>votes := votes (db w) @ [cv_vote c]\<rparr>\<rparr>))"
                using True \<open>find_option (db w) oid = Some opt\<close> Some Inr
                by (simp add: sv cs s')
            qed
          next
            case False
            then have "\<exists>r. submitVote uq req w = (r, w) \<and>
                status r \<in> {400, 404, 403, 409, 500}"
              using \<open>find_option (db w) oid = Some opt\<close> Some
              by (auto simp: sv split: option.splits)
            then obtain r where "submitVote uq req w = (r, w)"
              and "status r \<in> {400, 404, 403, 409, 500}" by blast
            then show ?thesis by (rule rejected)
          qed
        qed
      qed
    qed
  next
    case False
    then have "pollOption_findUnique (db w) j = Inl OtherError"
      by (cases j) (simp_all add: pollOption_findUnique_def)
    with \<open>\<not> falsy (map_of (req_body req) ''pollOptionId'')\<close> j
    have "submitVote uq req w = (Response 500 (error_body ''Internal server error''), w)"
      by (simp add: submitVote_def on_catch_def)
    then show ?thesis by (rule rejected) simp
  qed
qed

lemma advance_rejection_unchanged:
  assumes "advance uq req pc w = (Done r, w')" and "status r \<noteq> 201"
  shows "w' = w"
proof (cases pc)
  case AtFindOption
  with assms show ?thesis
    by (auto simp: Let_def split: if_splits sum.splits option.splits)
next
  case (AtFindVote opt p)
  with assms show ?thesis by (auto split: option.splits)
next
  case (AtCreate opt p)
  with assms show ?thesis by (auto split: sum.splits)
next
  case (AtResults v opt p)
  with assms show ?thesis by (auto simp: Let_def accepted_response_def)
next
  case (Done r')
  with assms show ?thesis by simp
qed

lemma advance_emits:
  assumes "advance uq req pc w = (pc', w')" and "emitted w' \<noteq> emitted w"
  shows "\<exists>v opt p. pc = AtResults v opt p"
proof (cases pc)
  case AtFindOption
  with assms show ?thesis
    by (auto simp: Let_def split: if_splits sum.splits option.splits)
next
  case (AtFindVote opt p)
  with assms show ?thesis by (auto split: option.splits)
next
  case (AtCreate opt p)
  with assms show ?thesis by (auto split: sum.splits)
next
  case (AtResults v opt p)
  with assms show ?thesis by simp
next
  case (Done r')
  with assms show ?thesis by simp
qed

lemma advance_to_AtResults:
  assumes "advance uq req pc w = (AtResults v opt p, w')"
  shows "pc = AtCreate opt p \<and> votes (db w') = votes (db w) @ [cv_vote v] \<and>
         emitted w' = emitted w"
proof (cases pc)
  case AtFindOption
  with assms show ?thesis
    by (auto simp: Let_def split: if_splits sum.splits option.splits)
next
  case (AtFindVote opt' p')
  with assms show ?thesis by (auto split: option.splits)
next
  case (AtCreate opt' p')
  with assms obtain s' where
    vc: "vote_create uq (db w) (req_new_id req) (req_now req) (req_user_id req)
           (the (map_of (req_body req) ''pollOptionId'')) = Inr (v, s')"
    and w': "w' = w\<lparr>db := s'\<rparr>" and eq: "opt' = opt" "p' = p"
    by (auto split: sum.splits)
  have "s' = (db w)\<lparr>votes := votes (db w) @ [cv_vote v]\<rparr>"
    using vc by (rule vote_create_Inr)
  then show ?thesis by (simp add: AtCreate w' eq)
next
  case (AtResults v' opt' p')
  with assms show ?thesis by (auto simp: Let_def)
next
  case (Done r')
  with assms show ?thesis by simp
qed

text \<open>
  C6. A call of \<open>submitVote\<close> that answers 400, 404, 403 or 409 leaves the world as it
  was: no vote is created and nothing is broadcast; a call that broadcasts answers 201 and
  has appended the voter's vote to the store. For a request in flight: a step that ends
  in one of these rejections (the late conflict included) leaves the world unchanged; only
  the step after the insert broadcasts; and that step is reached only by the step that
  appends the vote, which broadcasts nothing.
\<close>

theorem C6_rejections_have_no_effect:
  "(status (fst (submitVote uq req w)) \<in> {400, 404, 403, 409} \<longrightarrow>
      snd (submitVote uq req w) = w)
   \<and> (emitted (snd (submitVote uq req w)) \<noteq> emitted w \<longrightarrow>
        status (fst (submitVote uq req w)) = 201 \<and>
        (\<exists>v. votes (db (snd (submitVote uq req w))) = votes (db w) @ [v] \<and>
             vote_userId v = req_user_id req))
   \<and> (\<forall>r w'. advance uq req pc w = (Done r, w') \<and> status r \<in> {400, 404, 403, 409} \<longrightarrow>
        w' = w)
   \<and> (\<forall>pc' w'. advance uq req pc w = (pc', w') \<and> emitted w' \<noteq> emitted w \<longrightarrow>
        (\<exists>v opt p. pc = AtResults v opt p))
   \<and> (\<forall>v opt p w'. advance uq req pc w = (AtResults v opt p, w') \<longrightarrow>
        pc = AtCreate opt p \<and> votes (db w') = votes (db w) @ [cv_vote v] \<and>
        emitted w' = emitted w)"
proof -
  have c1: "status (fst (submitVote uq req w)) \<in> {400, 404, 403, 409} \<longrightarrow>
      snd (submitVote uq req w) = w"
  proof
  assume a: "status (fst (submitVote uq req w)) \<in> {400, 404, 403, 409}"
  show "snd (submitVote uq req w) = w"
  proof (cases rule: submitVote_cases [of uq req w])
    case (rejected r)
    then show ?thesis by simp
  next
    case (accepted oid opt p c)
    with a show ?thesis by (simp add: accepted_response_def)
  qed
  qed
  have c2: "emitted (snd (submitVote uq req w)) \<noteq> emitted w \<longrightarrow>
        status (fst (submitVote uq req w)) = 201 \<and>
        (\<exists>v. votes (db (snd (submitVote uq req w))) = votes (db w) @ [v] \<and>
             vote_userId v = req_user_id req)"
  proof
  assume e: "emitted (snd (submitVote uq req w)) \<noteq> emitted w"
  show "status (fst (submitVote uq req w)) = 201 \<and>
        (\<exists>v. votes (db (snd (submitVote uq req w))) = votes (db w) @ [v] \<and>
             vote_userId v = req_user_id req)"
  proof (cases rule: submitVote_cases [of uq req w])
    case (rejected r)
    with e show ?thesis by simp
  next
    case (accepted oid opt p c)
    have "vote_userId (cv_vote c) = req_user_id req"
      using accepted(4) by (auto simp: vote_create_def Let_def split: if_splits option.splits)
    then show ?thesis
      by (simp add: accepted(5) accepted_response_def emit_to_room_simps)
  qed
  qed
  have c3: "\<forall>r w'. advance uq req pc w = (Done r, w') \<and> status r \<in> {400, 404, 403, 409} \<longrightarrow>
        w' = w"
    using advance_rejection_unchanged [of uq req pc w] by auto
  have c4: "\<forall>pc' w'. advance uq req pc w = (pc', w') \<and> emitted w' \<noteq> emitted w \<longrightarrow>
        (\<exists>v opt p. pc = AtResults v opt p)"
    using advance_emits [of uq req pc w] by blast
  have c5: "\<forall>v opt p w'. advance uq req pc w = (AtResults v opt p, w') \<longrightarrow>
        pc = AtCreate opt p \<and> votes (db w') = votes (db w) @ [cv_vote v] \<and>
        emitted w' = emitted w"
    using advance_to_AtResults [of uq req pc w] by blast
  show ?thesis
    by (rule conjI [OF c1 conjI [OF c2 conjI [OF c3 conjI [OF c4 c5]]]])
qed

lemma store111_eq:
  "store111 = store0\<lparr>votes := [mk_vote ''v1'' ''X'' ''A'', mk_vote ''v2'' ''Y'' ''B'',
                                mk_vote ''v3'' ''Z'' ''C'']\<rparr>"
  by (simp add: store111_def)

lemma example_second_vote:
  "submitVote unique_voter_poll (vote_request ''X'' ''C'' ''v4'') (world_of store111) =
     (Response 409 (error_body ''You have already voted in this poll''), world_of store111)"
  by (simp add: store111_eq submitVote_string_id vote_request_simps world_of_simps
      store0_options store0_polls find_votes_update example_fields vote_findFirst_def
      vote_poll_def)

lemma example_create:
  "vote_create unique_voter_poll store0 ''v1'' ''2025-01-01T00:00:00.000Z'' ''X'' (JStr ''A'') =
     Inr (first_vote, store0\<lparr>votes := [mk_vote ''v1'' ''X'' ''A'']\<rparr>)"
  by (simp add: vote_create_def store0_votes store0_users store0_options store0_polls
      example_fields first_vote_def mk_vote_def Let_def)

lemma example_first_vote:
  "submitVote unique_voter_poll (vote_request ''X'' ''A'' ''v1'') (world_of store0) =
     (accepted_response first_vote,
      emit_to_room ''poll-P'' ''pollUpdate''
        (pollUpdate_payload ''P''
           (getPollResultsInternal (store0\<lparr>votes := [mk_vote ''v1'' ''X'' ''A'']\<rparr>) ''P''))
        ((world_of store0)\<lparr>db := store0\<lparr>votes := [mk_vote ''v1'' ''X'' ''A'']\<rparr>\<rparr>))"
  by (simp add: submitVote_string_id vote_request_simps world_of_simps store0_options
      store0_polls store0_votes example_fields vote_findFirst_def example_create
      vote_request_def poll_room_def)

text \<open>
  C6 at \<open>X\<close>'s second vote (rejected early), at \<open>X\<close>'s first vote (accepted), and at
  the steps of both in flight.
\<close>

theorem C6_rejections_have_no_effect_witness:
  "status (fst (submitVote unique_voter_poll (vote_request ''X'' ''C'' ''v4'') (world_of store111)))
     \<in> {400, 404, 403, 409}
   \<and> snd (submitVote unique_voter_poll (vote_request ''X'' ''C'' ''v4'') (world_of store111)) =
       world_of store111
   \<and> emitted (snd (submitVote unique_voter_poll (vote_request ''X'' ''A'' ''v1'') (world_of store0)))
       \<noteq> emitted (world_of store0)
   \<and> status (fst (submitVote unique_voter_poll (vote_request ''X'' ''A'' ''v1'') (world_of store0)))
       = 201
   \<and> (\<exists>v. votes (db (snd (submitVote unique_voter_poll (vote_request ''X'' ''A'' ''v1'')
                (world_of store0)))) = votes (db (world_of store0)) @ [v] \<and>
           vote_userId v = req_user_id (vote_request ''X'' ''A'' ''v1''))
   \<and> advance unique_voter_poll (vote_request ''X'' ''C'' ''v4'') (AtCreate optC pollP)
       (world_of store111) =
       (Done (Response 409 (error_body ''You have already voted for this option'')),
        world_of store111)
   \<and> (\<exists>v opt p. AtResults first_vote optA pollP = AtResults v opt p)
   \<and> votes (db ((world_of store0)\<lparr>db := store0\<lparr>votes := [mk_vote ''v1'' ''X'' ''A'']\<rparr>\<rparr>)) =
       votes (db (world_of store0)) @ [cv_vote first_vote]"
proof -
  note t1 = C6_rejections_have_no_effect [of unique_voter_poll "vote_request ''X'' ''C'' ''v4''"
      "world_of store111" "AtCreate optC pollP"]
  note t2 = C6_rejections_have_no_effect [of unique_voter_poll "vote_request ''X'' ''A'' ''v1''"
      "world_of store0" "AtCreate optA pollP"]
  note t3 = C6_rejections_have_no_effect [of unique_voter_poll "vote_request ''X'' ''A'' ''v1''"
      "(world_of store0)\<lparr>db := store0\<lparr>votes := [mk_vote ''v1'' ''X'' ''A'']\<rparr>\<rparr>"
      "AtResults first_vote optA pollP"]
  have h1: "status (fst (submitVote unique_voter_poll (vote_request ''X'' ''C'' ''v4'')
      (world_of store111))) \<in> {400, 404, 403, 409}"
    by (simp add: example_second_vote)
  have c1: "snd (submitVote unique_voter_poll (vote_request ''X'' ''C'' ''v4'') (world_of store111)) =
       world_of store111"
    using t1 [THEN conjunct1] h1 by blast
  have h2: "emitted (snd (submitVote unique_voter_poll (vote_request ''X'' ''A'' ''v1'')
      (world_of store0))) \<noteq> emitted (world_of store0)"
    by (simp add: example_first_vote emit_to_room_simps world_of_simps)
  have c2: "status (fst (submitVote unique_voter_poll (vote_request ''X'' ''A'' ''v1'') (world_of store0)))
       = 201
   \<and> (\<exists>v. votes (db (snd (submitVote unique_voter_poll (vote_request ''X'' ''A'' ''v1'')
                (world_of store0)))) = votes (db (world_of store0)) @ [v] \<and>
           vote_userId v = req_user_id (vote_request ''X'' ''A'' ''v1''))"
    using t2 [THEN conjunct2, THEN conjunct1] h2 by blast
  have late: "advance unique_voter_poll (vote_request ''X'' ''C'' ''v4'') (AtCreate optC pollP)
       (world_of store111) =
       (Done (Response 409 (error_body ''You have already voted for this option'')),
        world_of store111)"
    by (simp add: store111_eq vote_request_simps world_of_simps vote_create_def store0_options
        find_votes_update example_fields unique_voter_poll_def vote_poll_def on_catch_def)
  have "world_of store111 = world_of store111"
    using t1 [THEN conjunct2, THEN conjunct2, THEN conjunct1, rule_format,
        of "Response 409 (error_body ''You have already voted for this option'')"
           "world_of store111"] late
    by simp
  have step: "advance unique_voter_poll (vote_request ''X'' ''A'' ''v1'') (AtCreate optA pollP)
       (world_of store0) =
       (AtResults first_vote optA pollP,
        (world_of store0)\<lparr>db := store0\<lparr>votes := [mk_vote ''v1'' ''X'' ''A'']\<rparr>\<rparr>)"
    by (simp add: vote_request_simps world_of_simps example_create vote_request_def)
  have c5: "votes (db ((world_of store0)\<lparr>db := store0\<lparr>votes := [mk_vote ''v1'' ''X'' ''A'']\<rparr>\<rparr>)) =
       votes (db (world_of store0)) @ [cv_vote first_vote]"
    using t2 [THEN conjunct2, THEN conjunct2, THEN conjunct2, THEN conjunct2, rule_format,
        OF step] by simp
  have emits: "emitted (snd (advance unique_voter_poll (vote_request ''X'' ''A'' ''v1'')
      (AtResults first_vote optA pollP)
      ((world_of store0)\<lparr>db := store0\<lparr>votes := [mk_vote ''v1'' ''X'' ''A'']\<rparr>\<rparr>))) \<noteq>
      emitted ((world_of store0)\<lparr>db := store0\<lparr>votes := [mk_vote ''v1'' ''X'' ''A'']\<rparr>\<rparr>)"
    by (simp add: emit_to_room_simps Let_def)
  have c4: "\<exists>v opt p. AtResults first_vote optA pollP = AtResults v opt p"
    using t3 [THEN conjunct2, THEN conjunct2, THEN conjunct2, THEN conjunct1, rule_format,
        of "fst (advance unique_voter_poll (vote_request ''X'' ''A'' ''v1'')
              (AtResults first_vote optA pollP)
              ((world_of store0)\<lparr>db := store0\<lparr>votes := [mk_vote ''v1'' ''X'' ''A'']\<rparr>\<rparr>))"
           "snd (advance unique_voter_poll (vote_request ''X'' ''A'' ''v1'')
              (AtResults first_vote optA pollP)
              ((world_of store0)\<lparr>db := store0\<lparr>votes := [mk_vote ''v1'' ''X'' ''A'']\<rparr>\<rparr>))"]
      emits
    by simp
  show ?thesis
    using h1 c1 h2 c2 late c4 c5 by blast
qed

lemma advance_Done: "advance uq req (Done r) w = (Done r, w)"
  by simp

text \<open>
  A request that runs alone takes four turns, and they compute what \<open>submitVote\<close>
  computes: the steps of a request in flight are the function cut at its awaits.
\<close>

lemma submitVote_as_turns:
  "run uq [0, 0, 0, 0] (start w [req]) =
     (snd (submitVote uq req w), [(req, Done (fst (submitVote uq req w)))])"
proof (cases "falsy (map_of (req_body req) ''pollOptionId'')")
  case True
  then show ?thesis
    by (simp add: start_def run_simps turn_simps submitVote_falsy)
next
  case False
  show ?thesis
  proof (cases "pollOption_findUnique (db w) (the (map_of (req_body req) ''pollOptionId''))")
    case (Inl e)
    with False show ?thesis
      by (simp add: start_def run_simps turn_simps submitVote_def)
  next
    case (Inr found)
    show ?thesis
    proof (cases found)
      case None
      with False Inr show ?thesis
        by (simp add: start_def run_simps turn_simps submitVote_def)
    next
      case (Some op)
      obtain opt p where op: "op = (opt, p)" by (cases op)
      show ?thesis
      proof (cases "poll_isPublished p")
        case False
        with \<open>\<not> falsy (map_of (req_body req) ''pollOptionId'')\<close> Inr Some op show ?thesis
          by (simp add: start_def run_simps turn_simps submitVote_def)
      next
        case True
        show ?thesis
        proof (cases "vote_findFirst (db w) (req_user_id req) (poll_id p)")
          case (Some v)
          with \<open>\<not> falsy (map_of (req_body req) ''pollOptionId'')\<close> Inr
            \<open>found = Some op\<close> op True show ?thesis
            by (simp add: start_def run_simps turn_simps submitVote_def)
        next
          case None
          show ?thesis
          proof (cases "vote_create uq (db w) (req_new_id req) (req_now req) (req_user_id req)
              (the (map_of (req_body req) ''pollOptionId''))")
            case (Inl e)
            with \<open>\<not> falsy (map_of (req_body req) ''pollOptionId'')\<close> Inr
              \<open>found = Some op\<close> op True None show ?thesis
              by (simp add: start_def run_simps turn_simps submitVote_def)
          next
            case (Inr cs)
            obtain c s' where cs: "cs = (c, s')" by (cases cs)
            from \<open>\<not> falsy (map_of (req_body req) ''pollOptionId'')\<close>
              \<open>pollOption_findUnique (db w) (the (map_of (req_body req) ''pollOptionId'')) =
                Inr found\<close>
              \<open>found = Some op\<close> op True None Inr cs show ?thesis
              by (simp add: start_def run_simps turn_simps submitVote_def Let_def)
          qed
        qed
      qed
    qed
  qed
qed

section \<open>Rooms\<close>

lemma socket_join_idem: "socket_join sid room (socket_join sid room reg) = socket_join sid room reg"
  by (simp add: socket_join_def)

lemma socket_join_member: "sid \<in> set (socket_join sid room reg room)"
  by (simp add: socket_join_def)

lemma socket_leave_absent: "sid \<notin> set (reg room) \<Longrightarrow> socket_leave sid room reg = reg"
  by (simp add: socket_leave_def fun_eq_iff)

lemma socket_join_distinct:
  "distinct (reg r) \<Longrightarrow> distinct (socket_join sid room reg r)"
  by (auto simp: socket_join_def)

lemma socket_leave_distinct:
  "distinct (reg r) \<Longrightarrow> distinct (socket_leave sid room reg r)"
  by (auto simp: socket_leave_def distinct_removeAll)

lemma socket_leave_all_distinct:
  "distinct (reg r) \<Longrightarrow> distinct (socket_leave_all sid reg r)"
  by (simp add: socket_leave_all_def distinct_removeAll)

lemma socket_step_distinct:
  assumes "\<And>r. distinct (rooms w r)"
  shows "distinct (rooms (socket_step a w) r)"
proof (cases a)
  case (Pair sid act)
  show ?thesis
  proof (cases act)
    case (Emits ev)
    with Pair assms show ?thesis
      by (cases ev) (simp_all add: socket_join_distinct socket_leave_distinct)
  next
    case Closes
    with Pair assms show ?thesis
      by (simp add: disconnect_def socket_leave_all_distinct)
  qed
qed

lemma socket_steps_snoc: "socket_steps (acts @ [a]) w = socket_step a (socket_steps acts w)"
  by (simp add: socket_steps_def)

lemma socket_steps_distinct:
  assumes "\<And>r. distinct (rooms w r)"
  shows "distinct (rooms (socket_steps acts w) r)"
proof (induction acts arbitrary: r rule: rev_induct)
  case Nil
  then show ?case using assms by (simp add: socket_steps_def)
next
  case (snoc a acts)
  show ?case unfolding socket_steps_snoc by (rule socket_step_distinct) (rule snoc.IH)
qed

lemma copies_deliveries:
  "copies sid (deliveries room ev payload w) = count_list (rooms w room) sid"
proof -
  have "length (filter (\<lambda>m. fst m = sid) (map (\<lambda>s. (s, ev, payload)) xs)) = count_list xs sid"
    for xs :: "string list"
    by (induction xs) simp_all
  then show ?thesis by (simp add: copies_def deliveries_def)
qed

lemma count_list_distinct_member:
  "distinct xs \<Longrightarrow> x \<in> set xs \<Longrightarrow> count_list xs x = 1"
  by (induction xs) (auto simp: count_list_0_iff)

text \<open>
  C7. In every state of the registry that joins, leaves and disconnects reach from the
  empty registry: a second \<open>joinPoll\<close> of a connection for the same poll leaves the
  world unchanged, a broadcast to the poll's room after it delivers exactly one copy to
  the connection, and a \<open>leavePoll\<close> for a room that the connection is not in leaves the
  world unchanged (the handler returns a world: there is no error to raise). In every such
  state a broadcast delivers one copy to each member of the room and none to anyone else.
\<close>

theorem C7_join_twice_leave_absent:
  assumes "rooms w0 = (\<lambda>room. [])" and "w = socket_steps acts w0"
  shows "on_event sid (JoinPoll pid) (on_event sid (JoinPoll pid) w) = on_event sid (JoinPoll pid) w
    \<and> copies sid (deliveries (poll_room pid) ev payload
         (on_event sid (JoinPoll pid) (on_event sid (JoinPoll pid) w))) = 1
    \<and> (sid \<notin> set (rooms w (poll_room pid)) \<longrightarrow> on_event sid (LeavePoll pid) w = w)
    \<and> (\<forall>sid' room. copies sid' (deliveries room ev payload w) =
          (if sid' \<in> set (rooms w room) then 1 else 0))"
proof -
  have d: "distinct (rooms w r)" for r
    unfolding assms(2) by (rule socket_steps_distinct) (simp add: assms(1))
  have c1: "on_event sid (JoinPoll pid) (on_event sid (JoinPoll pid) w) =
      on_event sid (JoinPoll pid) w"
    by (simp add: socket_join_idem)
  have "copies sid (deliveries (poll_room pid) ev payload (on_event sid (JoinPoll pid) w)) = 1"
    unfolding copies_deliveries
    by (rule count_list_distinct_member) (simp_all add: socket_join_distinct d socket_join_member)
  then have c2: "copies sid (deliveries (poll_room pid) ev payload
         (on_event sid (JoinPoll pid) (on_event sid (JoinPoll pid) w))) = 1"
    by (simp only: c1)
  have c3: "sid \<notin> set (rooms w (poll_room pid)) \<longrightarrow> on_event sid (LeavePoll pid) w = w"
    by (simp add: socket_leave_absent)
  have c4: "\<forall>sid' room. copies sid' (deliveries room ev payload w) =
          (if sid' \<in> set (rooms w room) then 1 else 0)"
    by (simp add: copies_deliveries count_list_distinct_member d)
  show ?thesis by (rule conjI [OF c1 conjI [OF c2 conjI [OF c3 c4]]])
qed

lemma example_rooms:
  "rooms (socket_steps [(''s1'', Emits (JoinPoll ''P'')), (''s2'', Emits (JoinPoll ''P'')),
                        (''s1'', Emits (JoinPoll ''Q''))] (world_of store0)) =
     (\<lambda>room. [])(''poll-P'' := [''s1'', ''s2''], ''poll-Q'' := [''s1''])"
  by (simp add: socket_steps_def socket_join_def poll_room_def world_of_simps fun_eq_iff)

text \<open>
  C7 after \<open>s1\<close> and \<open>s2\<close> joined \<open>P\<close> and \<open>s1\<close> joined \<open>Q\<close>: \<open>s1\<close> joins \<open>P\<close>
  twice more, \<open>s2\<close> leaves \<open>Q\<close>.
\<close>

theorem C7_join_twice_leave_absent_witness:
  "rooms (world_of store0) = (\<lambda>room. [])
   \<and> on_event ''s1'' (JoinPoll ''P'') (on_event ''s1'' (JoinPoll ''P'')
        (socket_steps [(''s1'', Emits (JoinPoll ''P'')), (''s2'', Emits (JoinPoll ''P'')),
                       (''s1'', Emits (JoinPoll ''Q''))] (world_of store0))) =
      on_event ''s1'' (JoinPoll ''P'')
        (socket_steps [(''s1'', Emits (JoinPoll ''P'')), (''s2'', Emits (JoinPoll ''P'')),
                       (''s1'', Emits (JoinPoll ''Q''))] (world_of store0))
   \<and> copies ''s1'' (deliveries (poll_room ''P'') ''pollUpdate'' JNull
        (on_event ''s1'' (JoinPoll ''P'') (on_event ''s1'' (JoinPoll ''P'')
          (socket_steps [(''s1'', Emits (JoinPoll ''P'')), (''s2'', Emits (JoinPoll ''P'')),
                         (''s1'', Emits (JoinPoll ''Q''))] (world_of store0))))) = 1
   \<and> ''s2'' \<notin> set (rooms (socket_steps [(''s1'', Emits (JoinPoll ''P'')),
          (''s2'', Emits (JoinPoll ''P'')), (''s1'', Emits (JoinPoll ''Q''))] (world_of store0))
          (poll_room ''Q''))
   \<and> on_event ''s2'' (LeavePoll ''Q'')
        (socket_steps [(''s1'', Emits (JoinPoll ''P'')), (''s2'', Emits (JoinPoll ''P'')),
                       (''s1'', Emits (JoinPoll ''Q''))] (world_of store0)) =
      socket_steps [(''s1'', Emits (JoinPoll ''P'')), (''s2'', Emits (JoinPoll ''P'')),
                    (''s1'', Emits (JoinPoll ''Q''))] (world_of store0)"
proof -
  have r0: "rooms (world_of store0) = (\<lambda>room. [])" by (simp add: world_of_simps)
  note t1 = C7_join_twice_leave_absent [where acts =
      "[(''s1'', Emits (JoinPoll ''P'')), (''s2'', Emits (JoinPoll ''P'')),
        (''s1'', Emits (JoinPoll ''Q''))]" and sid = "''s1''" and pid = "''P''"
      and ev = "''pollUpdate''" and payload = JNull, OF r0 refl]
  note t2 = C7_join_twice_leave_absent [where acts =
      "[(''s1'', Emits (JoinPoll ''P'')), (''s2'', Emits (JoinPoll ''P'')),
        (''s1'', Emits (JoinPoll ''Q''))]" and sid = "''s2''" and pid = "''Q''"
      and ev = "''pollUpdate''" and payload = JNull, OF r0 refl]
  have h: "''s2'' \<notin> set (rooms (socket_steps [(''s1'', Emits (JoinPoll ''P'')),
          (''s2'', Emits (JoinPoll ''P'')), (''s1'', Emits (JoinPoll ''Q''))] (world_of store0))
          (poll_room ''Q''))"
    by (simp add: example_rooms poll_room_def)
  show ?thesis
    using r0 t1 [THEN conjunct1] t1 [THEN conjunct2, THEN conjunct1]
      h t2 [THEN conjunct2, THEN conjunct2, THEN conjunct1, rule_format, OF h]
    by blast
qed

lemma socket_leave_all_absent: "sid \<notin> set (socket_leave_all sid reg room)"
  by (simp add: socket_leave_all_def)

lemma socket_step_other_absent:
  assumes "fst a \<noteq> sid" and "\<And>room. sid \<notin> set (rooms w room)"
  shows "sid \<notin> set (rooms (socket_step a w) room)"
proof (cases a)
  case (Pair sid' act)
  show ?thesis
  proof (cases act)
    case (Emits ev)
    with Pair assms show ?thesis
      by (cases ev) (auto simp: socket_join_def socket_leave_def)
  next
    case Closes
    with Pair assms show ?thesis
      by (simp add: disconnect_def socket_leave_all_def)
  qed
qed

lemma socket_steps_others_absent:
  assumes "\<forall>a\<in>set acts. fst a \<noteq> sid" and "\<And>room. sid \<notin> set (rooms w room)"
  shows "sid \<notin> set (rooms (socket_steps acts w) room)"
  using assms(1)
proof (induction acts arbitrary: room rule: rev_induct)
  case Nil
  then show ?case using assms(2) by (simp add: socket_steps_def)
next
  case (snoc a acts)
  have "fst a \<noteq> sid" using snoc.prems by simp
  moreover have "sid \<notin> set (rooms (socket_steps acts w) r)" for r
    using snoc.prems by (intro snoc.IH) simp
  ultimately show ?case unfolding socket_steps_snoc by (rule socket_step_other_absent)
qed

lemma submitVote_rooms: "rooms (snd (submitVote uq req w)) = rooms w"
  by (cases rule: submitVote_cases [of uq req w]) (simp_all add: emit_to_room_simps)

lemma submitVote_delivered:
  "\<exists>room ev payload. delivered (snd (submitVote uq req w)) = delivered w \<or>
     delivered (snd (submitVote uq req w)) = delivered w @ deliveries room ev payload w"
proof (cases rule: submitVote_cases [of uq req w])
  case (rejected r)
  then show ?thesis by simp
next
  case (accepted oid opt p c)
  have "deliveries room ev payload (w\<lparr>db := s\<rparr>) = deliveries room ev payload w"
    for room ev payload s
    by (simp add: deliveries_def)
  then show ?thesis
    unfolding accepted(5) by (simp add: emit_to_room_simps) blast
qed

lemma socket_step_frame:
  "db (socket_step a w) = db w" "emitted (socket_step a w) = emitted w"
  "delivered (socket_step a w) = delivered w"
proof -
  obtain sid act where a: "a = (sid, act)" by (cases a)
  show "db (socket_step a w) = db w" "emitted (socket_step a w) = emitted w"
    "delivered (socket_step a w) = delivered w"
    unfolding a
    by (cases act; cases "case act of Emits ev \<Rightarrow> ev | Closes \<Rightarrow> DisconnectEvent";
        simp add: disconnect_def)+
qed

lemma socket_steps_frame:
  "db (socket_steps acts w) = db w" "emitted (socket_steps acts w) = emitted w"
  "delivered (socket_steps acts w) = delivered w"
  by (induction acts rule: rev_induct) (simp_all add: socket_steps_snoc socket_step_frame, simp_all add: socket_steps_def)

lemma disconnect_frame:
  "db (disconnect sid w) = db w" "emitted (disconnect sid w) = emitted w"
  "delivered (disconnect sid w) = delivered w"
  "rooms (disconnect sid w) = socket_leave_all sid (rooms w)"
  by (simp_all add: disconnect_def)

lemma copies_append: "copies sid (xs @ ys) = copies sid xs + copies sid ys"
  by (simp add: copies_def)

lemma deliveries_disconnect:
  "deliveries room ev payload (disconnect sid w) =
   filter (\<lambda>m. fst m \<noteq> sid) (deliveries room ev payload w)"
proof -
  have "removeAll sid xs = filter (\<lambda>x. x \<noteq> sid) xs" for xs :: "string list"
    by (induction xs) auto
  then show ?thesis
    by (simp add: deliveries_def disconnect_frame socket_leave_all_def filter_map o_def)
qed

text \<open>
  C8. A connection that disconnects is in no room afterwards, and stays out whatever the
  other connections do; no broadcast made then delivers a copy to it, a vote submitted
  then included; a broadcast reaches the members that remain exactly as before, the
  copies of the disconnected connection left out; the store and the logs are untouched.
\<close>

theorem C8_disconnect_prunes:
  assumes "\<forall>a\<in>set acts. fst a \<noteq> sid"
  shows "(\<forall>room. sid \<notin> set (rooms (disconnect sid w) room))
    \<and> (\<forall>room. sid \<notin> set (rooms (socket_steps acts (disconnect sid w)) room))
    \<and> (\<forall>room ev payload.
          copies sid (deliveries room ev payload (socket_steps acts (disconnect sid w))) = 0)
    \<and> copies sid (delivered (snd (submitVote uq req (socket_steps acts (disconnect sid w))))) =
        copies sid (delivered w)
    \<and> (\<forall>room ev payload.
          deliveries room ev payload (disconnect sid w) =
          filter (\<lambda>m. fst m \<noteq> sid) (deliveries room ev payload w))
    \<and> db (disconnect sid w) = db w \<and> emitted (disconnect sid w) = emitted w
    \<and> delivered (disconnect sid w) = delivered w"
proof -
  define w' where "w' = socket_steps acts (disconnect sid w)"
  have c1: "sid \<notin> set (rooms (disconnect sid w) room)" for room
    by (simp add: disconnect_frame socket_leave_all_absent)
  have c2: "sid \<notin> set (rooms w' room)" for room
    unfolding w'_def using assms by (rule socket_steps_others_absent) (rule c1)
  have c3: "copies sid (deliveries room ev payload w') = 0" for room ev payload
    by (simp add: copies_deliveries c2)
  have dl: "delivered w' = delivered w"
    by (simp add: w'_def socket_steps_frame disconnect_frame)
  obtain room ev payload where
    "delivered (snd (submitVote uq req w')) = delivered w' \<or>
     delivered (snd (submitVote uq req w')) = delivered w' @ deliveries room ev payload w'"
    using submitVote_delivered [of uq req w'] by blast
  then have c4: "copies sid (delivered (snd (submitVote uq req w'))) = copies sid (delivered w)"
    by (auto simp: copies_append c3 dl)
  show ?thesis
    using c1 c2 c3 c4 deliveries_disconnect [of _ _ _ sid w]
    by (simp add: disconnect_frame flip: w'_def)
qed

text \<open>C8 at \<open>s1\<close>, a member of the rooms of \<open>P\<close> and \<open>Q\<close>, disconnecting.\<close>

theorem C8_disconnect_prunes_witness:
  "(\<forall>room. ''s1'' \<notin> set (rooms (disconnect ''s1''
       (socket_steps [(''s1'', Emits (JoinPoll ''P'')), (''s2'', Emits (JoinPoll ''P'')),
                      (''s1'', Emits (JoinPoll ''Q''))] (world_of store0))) room))
   \<and> rooms (disconnect ''s1''
       (socket_steps [(''s1'', Emits (JoinPoll ''P'')), (''s2'', Emits (JoinPoll ''P'')),
                      (''s1'', Emits (JoinPoll ''Q''))] (world_of store0))) ''poll-P'' = [''s2'']
   \<and> (\<forall>room ev payload. copies ''s1'' (deliveries room ev payload
        (socket_steps [(''s2'', Emits (LeavePoll ''Q'')), (''s3'', Emits (JoinPoll ''P''))]
          (disconnect ''s1''
            (socket_steps [(''s1'', Emits (JoinPoll ''P'')), (''s2'', Emits (JoinPoll ''P'')),
                           (''s1'', Emits (JoinPoll ''Q''))] (world_of store0))))) = 0)
   \<and> deliveries ''poll-P'' ''pollUpdate'' JNull (disconnect ''s1''
       (socket_steps [(''s1'', Emits (JoinPoll ''P'')), (''s2'', Emits (JoinPoll ''P'')),
                      (''s1'', Emits (JoinPoll ''Q''))] (world_of store0))) =
     [(''s2'', ''pollUpdate'', JNull)]"
proof -
  note t = C8_disconnect_prunes [where acts =
      "[(''s2'', Emits (LeavePoll ''Q'')), (''s3'', Emits (JoinPoll ''P''))]" and sid = "''s1''"
      and w = "socket_steps [(''s1'', Emits (JoinPoll ''P'')), (''s2'', Emits (JoinPoll ''P'')),
                     (''s1'', Emits (JoinPoll ''Q''))] (world_of store0)"
      and uq = unique_voter_poll and req = "vote_request ''X'' ''A'' ''v1''"]
  have h: "\<forall>a\<in>set [(''s2'', Emits (LeavePoll ''Q'')), (''s3'', Emits (JoinPoll ''P''))].
      fst a \<noteq> ''s1''"
    by simp
  have r: "rooms (disconnect ''s1''
       (socket_steps [(''s1'', Emits (JoinPoll ''P'')), (''s2'', Emits (JoinPoll ''P'')),
                      (''s1'', Emits (JoinPoll ''Q''))] (world_of store0))) ''poll-P'' = [''s2'']"
    by (simp add: disconnect_frame example_rooms socket_leave_all_def)
  have d: "deliveries ''poll-P'' ''pollUpdate'' JNull (disconnect ''s1''
       (socket_steps [(''s1'', Emits (JoinPoll ''P'')), (''s2'', Emits (JoinPoll ''P'')),
                      (''s1'', Emits (JoinPoll ''Q''))] (world_of store0))) =
     [(''s2'', ''pollUpdate'', JNull)]"
    using t [OF h, THEN conjunct2, THEN conjunct2, THEN conjunct2, THEN conjunct2,
        THEN conjunct1, rule_format, of "''poll-P''" "''pollUpdate''" JNull]
    by (simp add: deliveries_def example_rooms)
  show ?thesis
    using t [OF h, THEN conjunct1] r
      t [OF h, THEN conjunct2, THEN conjunct2, THEN conjunct1] d
    by blast
qed

section \<open>Concurrent submissions of one voter\<close>

subsection \<open>Every request in flight is answered\<close>

lemma advance_rank:
  "rank (fst (advance uq req pc w)) \<ge> min 4 (Suc (rank pc))"
proof (cases pc)
  case AtFindOption
  then show ?thesis
    by (simp add: Let_def split: sum.splits option.splits prod.splits)
next
  case (AtFindVote opt p)
  then show ?thesis by (simp split: option.splits)
next
  case (AtCreate opt p)
  then show ?thesis by (simp split: sum.splits prod.splits)
next
  case (AtResults v opt p)
  then show ?thesis by (simp add: Let_def)
next
  case (Done r)
  then show ?thesis by simp
qed

lemma turn_length: "length (snd (turn uq c i)) = length (snd c)"
  by (simp add: turn_def Let_def)

lemma turn_nth:
  assumes "j < length (snd c)"
  shows "snd (turn uq c i) ! j =
     (if j = i then (fst (snd c ! i), fst (advance uq (fst (snd c ! i)) (snd (snd c ! i)) (fst c)))
      else snd c ! j)"
  using assms by (simp add: turn_def Let_def)

lemma turn_fst:
  "fst (turn uq c i) =
     (if i < length (snd c) then snd (advance uq (fst (snd c ! i)) (snd (snd c ! i)) (fst c))
      else fst c)"
  by (simp add: turn_def Let_def)

lemma run_snoc: "run uq (sched @ [i]) c = turn uq (run uq sched c) i"
  by (simp add: run_def)

lemma run_length: "length (snd (run uq sched c)) = length (snd c)"
  by (induction sched rule: rev_induct) (simp_all add: run_snoc turn_length, simp add: run_def)

lemma run_rank:
  assumes "j < length (snd c)"
  shows "rank (snd (snd (run uq sched c) ! j)) \<ge> min 4 (rank (snd (snd c ! j)) + count_list sched j)"
proof (induction sched rule: rev_induct)
  case Nil
  then show ?case by (simp add: run_def)
next
  case (snoc i sched)
  define c' where "c' = run uq sched c"
  have j: "j < length (snd c')" using assms by (simp add: c'_def run_length)
  show ?case
  proof (cases "j = i")
    case True
    have "rank (snd (snd (turn uq c' i) ! j)) \<ge> min 4 (Suc (rank (snd (snd c' ! j))))"
      using j True advance_rank [of "snd (snd c' ! i)" uq "fst (snd c' ! i)" "fst c'"]
      by (simp add: turn_nth)
    with snoc.IH True show ?thesis
      by (simp add: run_snoc flip: c'_def)
  next
    case False
    with snoc.IH j show ?thesis
      by (simp add: run_snoc turn_nth flip: c'_def)
  qed
qed

lemma rank_done: "is_done pc \<longleftrightarrow> rank pc = 4"
  by (cases pc) simp_all

lemma rank_le: "rank pc \<le> 4"
  by (cases pc) simp_all

lemma run_completes:
  assumes "\<forall>j<length reqs. 4 \<le> count_list sched j"
  shows "all_done (run uq sched (start w reqs))"
proof -
  have "is_done (snd (snd (run uq sched (start w reqs)) ! j))"
    if "j < length reqs" for j
  proof -
    have "rank (snd (snd (run uq sched (start w reqs)) ! j)) \<ge>
          min 4 (rank (snd (snd (start w reqs) ! j)) + count_list sched j)"
      using that by (intro run_rank) (simp add: start_def)
    moreover have "4 \<le> count_list sched j" using assms that by simp
    ultimately have "rank (snd (snd (run uq sched (start w reqs)) ! j)) \<ge> 4" by simp
    then show ?thesis
      using rank_le [of "snd (snd (run uq sched (start w reqs)) ! j)"] by (simp add: rank_done)
  qed
  moreover have "length (snd (run uq sched (start w reqs))) = length reqs"
    by (simp add: run_length start_def)
  ultimately show ?thesis
    by (simp add: all_done_def list_all_length)
qed

subsection \<open>One insert per voter and poll\<close>

lemma same_tables_finds:
  assumes "same_tables s0 s"
  shows "find_option s = find_option s0" "find_poll s = find_poll s0"
    "find_user s = find_user s0" "vote_poll s = vote_poll s0"
  using assms
  by (simp_all add: same_tables_def find_option_def find_poll_def find_user_def vote_poll_def
      fun_eq_iff)

lemma targetsE:
  assumes "targets s0 V P req"
  obtains oid opt where "req_user_id req = V"
    and "map_of (req_body req) ''pollOptionId'' = Some (JStr oid)" and "oid \<noteq> []"
    and "find_option s0 oid = Some opt" and "option_pollId opt = P"
  using assms
  by (auto simp: targets_def split: option.splits json.splits)

lemma has_voted_findFirst: "has_voted s V P \<longleftrightarrow> vote_findFirst s V P \<noteq> None"
  by (auto simp: has_voted_def vote_findFirst_def list_ex_iff find_None_iff)

lemma has_voted_unique:
  assumes "vote_userId v = V" and "vote_poll s v = Some P"
  shows "list_ex (unique_voter_poll s v) (votes s) \<longleftrightarrow> has_voted s V P"
proof -
  have "unique_voter_poll s v = (\<lambda>x. vote_userId x = V \<and> vote_poll s x = Some P)"
    using assms by (auto simp: unique_voter_poll_def fun_eq_iff)
  then show ?thesis by (simp add: has_voted_def)
qed

lemma has_voted_append:
  assumes "same_tables s0 s"
  shows "has_voted (s\<lparr>votes := votes s @ [v]\<rparr>) V P \<longleftrightarrow>
         has_voted s V P \<or> (vote_userId v = V \<and> vote_poll s v = Some P)"
  by (auto simp: has_voted_def list_ex_iff find_votes_update)

lemma step_effect:
  assumes st: "same_tables s0 (db w)"
    and poll: "find_poll s0 P = Some p0" "poll_isPublished p0"
    and usr: "find_user s0 V = Some u0"
    and tg: "targets s0 V P req"
    and pc: "on_poll P pc"
    and adv: "advance unique_voter_poll req pc w = (pc', w')"
  shows "same_tables s0 (db w') \<and> on_poll P pc'
     \<and> (conflicted pc \<longrightarrow> conflicted pc')
     \<and> (conflicted pc' \<and> \<not> conflicted pc \<longrightarrow> has_voted (db w) V P)
     \<and> ((inserted pc' = inserted pc \<and> db w' = db w)
        \<or> (\<not> inserted pc \<and> inserted pc' \<and> \<not> has_voted (db w) V P \<and> has_voted (db w') V P
           \<and> length (votes (db w')) = Suc (length (votes (db w)))))"
proof -
  note finds = same_tables_finds [OF st]
  from tg obtain oid opt where
    uid: "req_user_id req = V" and
    body: "map_of (req_body req) ''pollOptionId'' = Some (JStr oid)" and ne: "oid \<noteq> []" and
    fo: "find_option s0 oid = Some opt" and op: "option_pollId opt = P"
    by (rule targetsE)
  have pid: "poll_id p0 = P" using poll(1) by (rule find_poll_id)
  show ?thesis
  proof (cases pc)
    case AtFindOption
    have "advance unique_voter_poll req AtFindOption w = (AtFindVote opt p0, w)"
      using body ne fo op poll
      by (simp add: pollOption_findUnique_def finds)
    with adv AtFindOption st pid show ?thesis by auto
  next
    case (AtFindVote opt' p')
    with pc have p': "poll_id p' = P" by simp
    show ?thesis
    proof (cases "vote_findFirst (db w) V P")
      case None
      with adv AtFindVote st p' uid show ?thesis by auto
    next
      case (Some v)
      then have "has_voted (db w) V P" by (simp add: has_voted_findFirst)
      with Some adv AtFindVote st p' uid show ?thesis by auto
    qed
  next
    case (AtCreate opt' p')
    with pc have p': "poll_id p' = P" by simp
    define v where "v = \<lparr>vote_id = req_new_id req, vote_createdAt = req_now req,
      vote_userId = V, vote_pollOptionId = oid\<rparr>"
    have vp: "vote_poll (db w) v = Some P"
      by (simp add: vote_poll_def finds(1) fo op v_def)
    have vu: "vote_userId v = V" by (simp add: v_def)
    show ?thesis
    proof (cases "has_voted (db w) V P")
      case True
      then have "list_ex (unique_voter_poll (db w) v) (votes (db w))"
        using has_voted_unique [OF vu vp] by simp
      then have "advance unique_voter_poll req (AtCreate opt' p') w =
          (Done (Response 409 (error_body ''You have already voted for this option'')), w)"
        by (simp add: body uid vote_create_def on_catch_def flip: v_def)
      with adv AtCreate st True show ?thesis by auto
    next
      case False
      then have "\<not> list_ex (unique_voter_poll (db w) v) (votes (db w))"
        using has_voted_unique [OF vu vp] by simp
      then have "advance unique_voter_poll req (AtCreate opt' p') w =
          (AtResults \<lparr>cv_vote = v, cv_user = u0, cv_option = opt, cv_poll = p0\<rparr> opt' p',
           w\<lparr>db := (db w)\<lparr>votes := votes (db w) @ [v]\<rparr>\<rparr>)"
        using usr fo op poll
        by (simp add: body uid vote_create_def finds flip: v_def)
      with adv AtCreate have pc': "pc' = AtResults \<lparr>cv_vote = v, cv_user = u0,
          cv_option = opt, cv_poll = p0\<rparr> opt' p'"
        and w': "w' = w\<lparr>db := (db w)\<lparr>votes := votes (db w) @ [v]\<rparr>\<rparr>" by simp_all
      have "has_voted (db w') V P"
        unfolding w' using has_voted_append [OF st, of v V P] vu vp by simp
      moreover have "same_tables s0 (db w')"
        using st by (simp add: w' same_tables_def)
      ultimately show ?thesis
        using False p' by (simp add: pc' AtCreate w')
    qed
  next
    case (AtResults cv opt' p')
    with adv pc show ?thesis
      by (auto simp: Let_def emit_to_room_simps accepted_response_def st)
  next
    case (Done r)
    with adv pc st show ?thesis by auto
  qed
qed

lemma filter_update_count:
  "i < length xs \<Longrightarrow>
   length (filter Q (xs[i := y])) + (if Q (xs ! i) then 1 else 0) =
   length (filter Q xs) + (if Q y then 1 else 0)"
proof (induction xs arbitrary: i)
  case Nil
  then show ?case by simp
next
  case (Cons x xs)
  show ?case
  proof (cases i)
    case 0
    then show ?thesis by simp
  next
    case (Suc j)
    with Cons.prems have "j < length xs" by simp
    from Cons.IH [OF this] show ?thesis by (simp add: Suc)
  qed
qed

lemma list_ex_update:
  "list_ex Q (xs[i := y]) \<Longrightarrow> Q y \<or> list_ex Q xs"
  using set_update_subset_insert [of xs i y] by (auto simp: list_ex_iff)

lemma turn_preserves:
  assumes poll: "find_poll s0 P = Some p0" "poll_isPublished p0"
    and usr: "find_user s0 V = Some u0"
    and inv: "in_flight_ok s0 V P c"
  shows "in_flight_ok s0 V P (turn unique_voter_poll c i)"
proof (cases "i < length (snd c)")
  case False
  then show ?thesis using inv by (simp add: turn_def Let_def)
next
  case True
  define w where "w = fst c"
  define ps where "ps = snd c"
  define r where "r = fst (ps ! i)"
  define pc where "pc = snd (ps ! i)"
  define pc' where "pc' = fst (advance unique_voter_poll r pc w)"
  define w' where "w' = snd (advance unique_voter_poll r pc w)"
  have i: "i < length ps" using True by (simp add: ps_def)
  have adv: "advance unique_voter_poll r pc w = (pc', w')" by (simp add: pc'_def w'_def)
  have tn: "turn unique_voter_poll c i = (w', ps[i := (r, pc')])"
    using True by (simp add: turn_def Let_def w_def ps_def r_def pc_def pc'_def w'_def)
  from inv have st: "same_tables s0 (db w)"
    and all: "list_all (\<lambda>p. targets s0 V P (fst p) \<and> on_poll P (snd p)) ps"
    and keep: "has_voted s0 V P \<longrightarrow> has_voted (db w) V P"
    and cnt: "length (filter inserted (map snd ps)) =
        (if has_voted s0 V P then 0 else if has_voted (db w) V P then 1 else 0)"
    and len: "length (votes (db w)) = length (votes s0) + length (filter inserted (map snd ps))"
    and cf: "list_ex conflicted (map snd ps) \<longrightarrow> has_voted (db w) V P"
    by (simp_all add: in_flight_ok_def w_def ps_def)
  have tg: "targets s0 V P r" and on: "on_poll P pc"
    using all i by (simp_all add: list_all_length r_def pc_def)
  note E = step_effect [OF st poll usr tg on adv]
  have st': "same_tables s0 (db w')" and on': "on_poll P pc'" using E by simp_all
  have mono: "has_voted (db w) V P \<longrightarrow> has_voted (db w') V P" using E by auto
  have all': "list_all (\<lambda>p. targets s0 V P (fst p) \<and> on_poll P (snd p)) (ps[i := (r, pc')])"
    using all tg on' i by (auto simp: list_all_length nth_list_update)
  have ms: "map snd (ps[i := (r, pc')]) = (map snd ps)[i := pc']"
    by (simp add: map_update)
  have fc: "length (filter inserted ((map snd ps)[i := pc'])) + (if inserted pc then 1 else 0) =
      length (filter inserted (map snd ps)) + (if inserted pc' then 1 else 0)"
    using filter_update_count [of i "map snd ps" inserted pc'] i by (simp add: pc_def)
  have cnt': "length (filter inserted ((map snd ps)[i := pc'])) =
        (if has_voted s0 V P then 0 else if has_voted (db w') V P then 1 else 0)"
    using E fc cnt keep by (auto split: if_splits)
  have len': "length (votes (db w')) =
      length (votes s0) + length (filter inserted ((map snd ps)[i := pc']))"
    using E fc len by (auto split: if_splits)
  have cf': "list_ex conflicted ((map snd ps)[i := pc']) \<longrightarrow> has_voted (db w') V P"
  proof
    assume "list_ex conflicted ((map snd ps)[i := pc'])"
    then have "conflicted pc' \<or> list_ex conflicted (map snd ps)" by (rule list_ex_update)
    then show "has_voted (db w') V P"
    proof
      assume c: "conflicted pc'"
      show ?thesis
      proof (cases "conflicted pc")
        case True
        then have "list_ex conflicted (map snd ps)"
          using i by (auto simp: list_ex_iff pc_def)
        with cf mono show ?thesis by simp
      next
        case False
        with c E have "has_voted (db w) V P" by simp
        with mono show ?thesis by simp
      qed
    next
      assume "list_ex conflicted (map snd ps)"
      with cf mono show ?thesis by simp
    qed
  qed
  show ?thesis
    unfolding tn in_flight_ok_def
    using st' all' keep mono cnt' len' cf' by (simp add: ms)
qed

lemma run_preserves:
  assumes "find_poll s0 P = Some p0" "poll_isPublished p0" "find_user s0 V = Some u0"
    and "in_flight_ok s0 V P c"
  shows "in_flight_ok s0 V P (run unique_voter_poll sched c)"
proof (induction sched rule: rev_induct)
  case Nil
  then show ?case using assms(4) by (simp add: run_def)
next
  case (snoc i sched)
  show ?case unfolding run_snoc using assms(1-3) snoc.IH by (rule turn_preserves)
qed

lemma start_ok:
  assumes "list_all (targets (db w) V P) reqs"
  shows "in_flight_ok (db w) V P (start w reqs)"
proof -
  have "filter inserted (map snd (map (\<lambda>r. (r, AtFindOption)) reqs)) = []"
    by (induction reqs) simp_all
  moreover have "\<not> list_ex conflicted (map snd (map (\<lambda>r. (r, AtFindOption)) reqs))"
    by (induction reqs) simp_all
  ultimately show ?thesis
    using assms
    by (simp add: in_flight_ok_def start_def same_tables_def list_all_iff)
qed

lemma responses_done:
  assumes "list_all (\<lambda>p. is_done (snd p) \<and> on_poll P (snd p)) ps"
  shows "length (filter (\<lambda>r. status r = 201) (List.map_filter (\<lambda>p. response_of (snd p)) ps)) =
           length (filter inserted (map snd ps))
       \<and> length (filter (\<lambda>r. status r = 409) (List.map_filter (\<lambda>p. response_of (snd p)) ps)) =
           length (filter conflicted (map snd ps))
       \<and> length (filter inserted (map snd ps)) + length (filter conflicted (map snd ps)) =
           length ps
       \<and> length (List.map_filter (\<lambda>p. response_of (snd p)) ps) = length ps"
  using assms
proof (induction ps)
  case Nil
  then show ?case by (simp add: List.map_filter_simps)
next
  case (Cons p ps)
  obtain r pc where p: "p = (r, pc)" by (cases p)
  from Cons.prems obtain res where pc: "pc = Done res" and "status res = 201 \<or> status res = 409"
    unfolding p by (cases pc) auto
  with Cons show ?case
    by (auto simp: List.map_filter_simps p)
qed

text \<open>
  C1. Let a voter, who is a user of the store, submit any number \<open>N \<ge> 1\<close> of votes for
  options of one published poll, the requests in flight at the same time, under the
  uniqueness constraint of one vote per voter and poll. Whatever the order in which their
  queries complete: every request is answered once each has had four turns; and when all
  are answered, exactly one was accepted (201) if the voter had not voted in the poll
  before, none if the voter had, every other request was answered with a conflict (409),
  and the store has grown by as many votes as requests were accepted. So no two of the
  submissions are both admitted.
\<close>

theorem C1_one_admission_per_voter_and_poll:
  assumes "find_poll (db w) P = Some p" and "poll_isPublished p"
    and "find_user (db w) V = Some u"
    and "list_all (targets (db w) V P) reqs" and "reqs \<noteq> []"
  shows "(\<forall>sched. (\<forall>j<length reqs. 4 \<le> count_list sched j) \<longrightarrow>
            all_done (run unique_voter_poll sched (start w reqs)))
    \<and> (\<forall>sched. all_done (run unique_voter_poll sched (start w reqs)) \<longrightarrow>
          length (responses (run unique_voter_poll sched (start w reqs))) = length reqs
        \<and> count_status 201 (responses (run unique_voter_poll sched (start w reqs))) =
            (if has_voted (db w) V P then 0 else 1)
        \<and> count_status 409 (responses (run unique_voter_poll sched (start w reqs))) =
            length reqs - (if has_voted (db w) V P then 0 else 1)
        \<and> length (votes (db (fst (run unique_voter_poll sched (start w reqs))))) =
            length (votes (db w)) + (if has_voted (db w) V P then 0 else 1))"
proof (intro conjI allI impI)
  fix sched
  assume "\<forall>j<length reqs. 4 \<le> count_list sched j"
  then show "all_done (run unique_voter_poll sched (start w reqs))" by (rule run_completes)
next
  fix sched
  define c where "c = run unique_voter_poll sched (start w reqs)"
  assume "all_done (run unique_voter_poll sched (start w reqs))"
  then have fin: "list_all (\<lambda>p. is_done (snd p)) (snd c)" by (simp add: all_done_def c_def)
  have "in_flight_ok (db w) V P c"
    unfolding c_def using assms(1-3) by (rule run_preserves) (rule start_ok [OF assms(4)])
  then have all: "list_all (\<lambda>p. targets (db w) V P (fst p) \<and> on_poll P (snd p)) (snd c)"
    and cnt: "length (filter inserted (map snd (snd c))) =
        (if has_voted (db w) V P then 0 else if has_voted (db (fst c)) V P then 1 else 0)"
    and len: "length (votes (db (fst c))) =
        length (votes (db w)) + length (filter inserted (map snd (snd c)))"
    and cf: "list_ex conflicted (map snd (snd c)) \<longrightarrow> has_voted (db (fst c)) V P"
    by (simp_all add: in_flight_ok_def)
  have n: "length (snd c) = length reqs" by (simp add: c_def run_length start_def)
  have "list_all (\<lambda>p. is_done (snd p) \<and> on_poll P (snd p)) (snd c)"
    using fin all by (simp add: list_all_iff)
  from responses_done [OF this]
  have r201: "count_status 201 (responses c) = length (filter inserted (map snd (snd c)))"
    and r409: "count_status 409 (responses c) = length (filter conflicted (map snd (snd c)))"
    and total: "length (filter inserted (map snd (snd c))) +
        length (filter conflicted (map snd (snd c))) = length reqs"
    and rl: "length (responses c) = length reqs"
    by (simp_all add: count_status_def responses_def n)
  have voted: "has_voted (db (fst c)) V P"
  proof (rule ccontr)
    assume nv: "\<not> has_voted (db (fst c)) V P"
    with cnt have "length (filter inserted (map snd (snd c))) = 0" by simp
    moreover from nv cf have "\<not> list_ex conflicted (map snd (snd c))" by blast
    then have "length (filter conflicted (map snd (snd c))) = 0"
      by (simp add: list_ex_iff filter_empty_conv)
    ultimately have "length reqs = 0" using total by simp
    with assms(5) show False by simp
  qed
  have ins: "length (filter inserted (map snd (snd c))) = (if has_voted (db w) V P then 0 else 1)"
    using cnt voted by simp
  show "length (responses (run unique_voter_poll sched (start w reqs))) = length reqs"
    using rl by (simp add: c_def)
  show "count_status 201 (responses (run unique_voter_poll sched (start w reqs))) =
            (if has_voted (db w) V P then 0 else 1)"
    using r201 ins by (simp add: c_def)
  show "count_status 409 (responses (run unique_voter_poll sched (start w reqs))) =
            length reqs - (if has_voted (db w) V P then 0 else 1)"
    using r409 ins total by (simp add: c_def split: if_splits)
  show "length (votes (db (fst (run unique_voter_poll sched (start w reqs))))) =
            length (votes (db w)) + (if has_voted (db w) V P then 0 else 1)"
    using len ins by (simp add: c_def)
qed

text \<open>
  C1 at three requests of \<open>X\<close> for the options \<open>A\<close>, \<open>C\<close> and \<open>B\<close> of \<open>P\<close>, their
  queries completing in turn.
\<close>

theorem C1_one_admission_per_voter_and_poll_witness:
  "\<not> has_voted (db (world_of store0)) ''X'' ''P''
   \<and> all_done (run unique_voter_poll [0, 1, 2, 0, 1, 2, 0, 1, 2, 0, 1, 2]
        (start (world_of store0)
           [vote_request ''X'' ''A'' ''v1'', vote_request ''X'' ''C'' ''v2'',
            vote_request ''X'' ''B'' ''v3'']))
   \<and> count_status 201 (responses (run unique_voter_poll [0, 1, 2, 0, 1, 2, 0, 1, 2, 0, 1, 2]
        (start (world_of store0)
           [vote_request ''X'' ''A'' ''v1'', vote_request ''X'' ''C'' ''v2'',
            vote_request ''X'' ''B'' ''v3'']))) = 1
   \<and> count_status 409 (responses (run unique_voter_poll [0, 1, 2, 0, 1, 2, 0, 1, 2, 0, 1, 2]
        (start (world_of store0)
           [vote_request ''X'' ''A'' ''v1'', vote_request ''X'' ''C'' ''v2'',
            vote_request ''X'' ''B'' ''v3'']))) = 2"
proof -
  have nv: "\<not> has_voted (db (world_of store0)) ''X'' ''P''"
    by (simp add: has_voted_def world_of_simps store0_votes)
  have tg: "list_all (targets (db (world_of store0)) ''X'' ''P'')
      [vote_request ''X'' ''A'' ''v1'', vote_request ''X'' ''C'' ''v2'',
       vote_request ''X'' ''B'' ''v3'']"
    by (simp add: targets_def vote_request_simps world_of_simps store0_options example_fields)
  note t = C1_one_admission_per_voter_and_poll [of "world_of store0" "''P''" pollP "''X''" userX
      "[vote_request ''X'' ''A'' ''v1'', vote_request ''X'' ''C'' ''v2'',
        vote_request ''X'' ''B'' ''v3'']", OF _ _ _ tg]
  have t': "(\<forall>sched. (\<forall>j<3. 4 \<le> count_list sched j) \<longrightarrow>
            all_done (run unique_voter_poll sched (start (world_of store0)
              [vote_request ''X'' ''A'' ''v1'', vote_request ''X'' ''C'' ''v2'',
               vote_request ''X'' ''B'' ''v3''])))
    \<and> (\<forall>sched. all_done (run unique_voter_poll sched (start (world_of store0)
              [vote_request ''X'' ''A'' ''v1'', vote_request ''X'' ''C'' ''v2'',
               vote_request ''X'' ''B'' ''v3''])) \<longrightarrow>
        count_status 201 (responses (run unique_voter_poll sched (start (world_of store0)
              [vote_request ''X'' ''A'' ''v1'', vote_request ''X'' ''C'' ''v2'',
               vote_request ''X'' ''B'' ''v3'']))) = 1
        \<and> count_status 409 (responses (run unique_voter_poll sched (start (world_of store0)
              [vote_request ''X'' ''A'' ''v1'', vote_request ''X'' ''C'' ''v2'',
               vote_request ''X'' ''B'' ''v3'']))) = 2)"
    using t nv by (simp add: world_of_simps store0_polls store0_users example_fields)
  have fair: "\<forall>j<3. 4 \<le> count_list [0, 1, 2, 0, 1, 2, 0, 1, 2, 0, 1, 2] (j::nat)"
    by (simp add: numeral_3_eq_3 less_Suc_eq)
  have d: "all_done (run unique_voter_poll [0, 1, 2, 0, 1, 2, 0, 1, 2, 0, 1, 2]
        (start (world_of store0)
           [vote_request ''X'' ''A'' ''v1'', vote_request ''X'' ''C'' ''v2'',
            vote_request ''X'' ''B'' ''v3'']))"
    using t' [THEN conjunct1, THEN spec, THEN mp, OF fair] .
  show ?thesis
    using nv d t' [THEN conjunct2, THEN spec, THEN mp, OF d] by simp
qed

text \<open>
  The same two-step race under the other constraint, one vote per voter and option: two
  requests of \<open>X\<close> for the options \<open>A\<close> and \<open>C\<close> of \<open>P\<close> both pass the pre-flight lookup
  before either inserts, neither insert violates the constraint, and both are answered
  201.
\<close>

lemma per_option_constraint_admits_both:
  "map (\<lambda>p. map_option status (response_of (snd p)))
     (snd (run unique_voter_option [0, 1, 0, 1, 0, 1, 0, 1]
        (start (world_of store0)
           [vote_request ''X'' ''A'' ''v1'', vote_request ''X'' ''C'' ''v2'']))) =
   [Some 201, Some 201]"
  by (simp add: start_def run_simps turn_simps turn_numeral world_of_simps vote_request_simps
      pollOption_findUnique_def store0_options store0_polls store0_users store0_votes
      find_votes_update example_fields vote_findFirst_def vote_create_def unique_voter_option_def
      vote_poll_def on_catch_def emit_to_room_simps accepted_response_def Let_def)

section \<open>The tally on examples\<close>

subsection \<open>Three votes, one for each of three options\<close>

lemma results_1_1_1:
  "getPollResultsInternal store111 ''P'' =
     Some \<lparr>pr_pollId = ''P'', pr_question = ''Which one?'', pr_totalVotes = 3,
           pr_options = [\<lparr>or_id = ''A'', or_text = ''Alpha'', or_voteCount = 1, or_percentage = 33\<rparr>,
                         \<lparr>or_id = ''B'', or_text = ''Beta'', or_voteCount = 1, or_percentage = 33\<rparr>,
                         \<lparr>or_id = ''C'', or_text = ''Gamma'', or_voteCount = 1, or_percentage = 33\<rparr>]\<rparr>"
proof -
  have n1: "number_of_count (Suc 0) = 1"
    unfolding number_of_count_def using fl_of_nat_exact [of 1] by simp
  have a1: "js_add 0 1 = 1" unfolding js_add_def using fl_of_nat_exact [of 1] by simp
  have a2: "js_add 1 1 = 2" unfolding js_add_def using fl_of_nat_exact [of 2] by simp
  have a3: "js_add 2 1 = 3" unfolding js_add_def using fl_of_nat_exact [of 3] by simp
  have po: "poll_options store111 ''P'' = [optA, optB, optC]"
    by (simp add: poll_options_place_0 store111_def store0_def optA_def optB_def optC_def optD_def
        optE_def)
  have fp: "find_poll store111 ''P'' = Some pollP"
    by (simp add: store111_def find_votes_update store0_polls)
  have cv: "count_votes store111 ''A'' = Suc 0" "count_votes store111 ''B'' = Suc 0"
    "count_votes store111 ''C'' = Suc 0"
    by (simp_all add: count_votes_def store111_def mk_vote_def)
  show ?thesis
    by (simp add: getPollResultsInternal_def poll_findUnique_counts_def po fp results_of_def
        cv n1 a1 a2 a3 percentage_1_3 example_fields)
       (simp add: pollP_def optA_def optB_def optC_def)
qed

subsection \<open>Two votes, then a third submission of the first voter\<close>

text \<open>
  \<open>X\<close> votes for \<open>A\<close>, \<open>Y\<close> votes for \<open>B\<close>: the broadcast after the second vote
  carries the total 2 and the percentages 50, 50 and 0. \<open>X\<close> then submits a vote for
  \<open>C\<close>: the answer is 409 and the world is unchanged.
\<close>

lemma percentage_1_2: "percentage 1 2 = 50"
proof -
  have d: "fl (1 / 2) = of_int 4503599627370496 * 2 powi (- 1 - 52)"
    by (rule fl_eqI) (simp_all add: power_int_minus_divide)
  have m: "fl (of_int 4503599627370496 * 2 powi (- 1 - 52) * 100) =
           of_int 7036874417766400 * 2 powi (5 - 52)"
    by (rule fl_eqI) (simp_all add: power_int_minus_divide)
  have "percentage 1 2 = of_int 50"
    by (rule percentage_eqI [OF _ d m]) (simp_all add: power_int_minus_divide)
  then show ?thesis by simp
qed

lemma percentage_0: "0 < t \<Longrightarrow> percentage 0 t = 0"
proof -
  have "\<lfloor>(1::rat) / 2\<rfloor> = 0" by (rule floor_unique) simp_all
  then show "0 < t \<Longrightarrow> percentage 0 t = 0"
    by (simp add: percentage_def js_div_def js_mul_def fl_def Math_round_def)
qed

lemma results_after_two:
  "pollUpdate_payload ''P'' (getPollResultsInternal store_after_two ''P'') = tally_after_two"
proof -
  have n1: "number_of_count (Suc 0) = 1"
    unfolding number_of_count_def using fl_of_nat_exact [of 1] by simp
  have a1: "js_add 0 1 = 1" unfolding js_add_def using fl_of_nat_exact [of 1] by simp
  have a2: "js_add 1 1 = 2" unfolding js_add_def using fl_of_nat_exact [of 2] by simp
  have a3: "js_add 2 0 = 2" unfolding js_add_def using fl_of_nat_exact [of 2] by simp
  have po: "poll_options store_after_two ''P'' = [optA, optB, optC]"
    by (simp add: poll_options_place_0 store_after_two_def store0_def optA_def optB_def optC_def
        optD_def optE_def)
  have fp: "find_poll store_after_two ''P'' = Some pollP"
    by (simp add: store_after_two_def find_votes_update store0_polls)
  have cv: "count_votes store_after_two ''A'' = Suc 0" "count_votes store_after_two ''B'' = Suc 0"
    "count_votes store_after_two ''C'' = 0"
    by (simp_all add: count_votes_def store_after_two_def mk_vote_def)
  show ?thesis
    by (simp add: getPollResultsInternal_def poll_findUnique_counts_def po fp results_of_def
        cv n1 number_zero a1 a2 a3 percentage_1_2 percentage_0 example_fields
        pollUpdate_payload_def json_of_results_def json_of_option_result_def tally_after_two_def)
       (simp add: pollP_def optA_def optB_def optC_def)
qed

lemma end_to_end_scenario:
  "emitted (snd (submitVote unique_voter_poll (vote_request ''Y'' ''B'' ''v2'')
      ((world_of store0)\<lparr>db := store0\<lparr>votes := [mk_vote ''v1'' ''X'' ''A'']\<rparr>\<rparr>))) =
     [(''poll-P'', ''pollUpdate'', tally_after_two)]
   \<and> db (snd (submitVote unique_voter_poll (vote_request ''Y'' ''B'' ''v2'')
      ((world_of store0)\<lparr>db := store0\<lparr>votes := [mk_vote ''v1'' ''X'' ''A'']\<rparr>\<rparr>))) = store_after_two
   \<and> submitVote unique_voter_poll (vote_request ''X'' ''C'' ''v3'') (world_of store_after_two) =
     (Response 409 (error_body ''You have already voted in this poll''), world_of store_after_two)"
proof -
  have vc: "vote_create unique_voter_poll (store0\<lparr>votes := [mk_vote ''v1'' ''X'' ''A'']\<rparr>) ''v2''
      ''2025-01-01T00:00:00.000Z'' ''Y'' (JStr ''B'') =
     Inr (\<lparr>cv_vote = mk_vote ''v2'' ''Y'' ''B'', cv_user = userY, cv_option = optB, cv_poll = pollP\<rparr>,
          store_after_two)"
    by (simp add: vote_create_def store0_users store0_options store0_polls find_votes_update
        example_fields mk_vote_def Let_def unique_voter_poll_def store_after_two_def)
  have c1: "submitVote unique_voter_poll (vote_request ''Y'' ''B'' ''v2'')
      ((world_of store0)\<lparr>db := store0\<lparr>votes := [mk_vote ''v1'' ''X'' ''A'']\<rparr>\<rparr>) =
     (accepted_response \<lparr>cv_vote = mk_vote ''v2'' ''Y'' ''B'', cv_user = userY, cv_option = optB,
        cv_poll = pollP\<rparr>,
      emit_to_room ''poll-P'' ''pollUpdate'' tally_after_two
        ((world_of store0)\<lparr>db := store_after_two\<rparr>))"
    by (simp add: submitVote_string_id vote_request_simps store0_options store0_polls
        find_votes_update example_fields vote_findFirst_def vote_poll_def vc [unfolded mk_vote_def]
        vote_request_def poll_room_def results_after_two mk_vote_def)
  have c2: "submitVote unique_voter_poll (vote_request ''X'' ''C'' ''v3'') (world_of store_after_two) =
     (Response 409 (error_body ''You have already voted in this poll''), world_of store_after_two)"
    by (simp add: store_after_two_def submitVote_string_id vote_request_simps world_of_simps
      store0_options store0_polls find_votes_update example_fields vote_findFirst_def
      vote_poll_def)
  show ?thesis
    by (simp add: c1 c2 emit_to_room_simps world_of_simps)
qed

subsection \<open>Twenty-three votes of forty\<close>

text \<open>
  The spec's formula \<open>round(100 * count / total)\<close>, evaluated in binary64 in the order
  it is written, gives 58 at 23 of 40 votes: the product 2300 and the quotient 57.5 are
  exact.
\<close>

lemma spec_formula_23_40: "Math_round (js_div (js_mul 100 23) 40) = 58"
proof -
  have m: "js_mul 100 23 = 2300"
    unfolding js_mul_def using fl_of_nat_exact [of 2300] by simp
  have d: "fl (2300 / 40) = of_int 8092405580431360 * 2 powi (5 - 52)"
    by (rule fl_eqI) (simp_all add: power_int_minus_divide)
  have r: "Math_round (of_int 8092405580431360 * 2 powi (5 - 52)) = of_int 58"
    by (rule Math_round_eqI) (simp_all add: power_int_minus_divide)
  have "Math_round (js_div (js_mul 100 23) 40) = Math_round (fl (2300 / 40))"
    by (simp only: m js_div_def)
  also have "\<dots> = of_int 58" by (simp only: d r)
  finally show ?thesis by simp
qed

text \<open>
  C3. The tally reports as each option's percentage \<open>round(100 * count / total)\<close>. It
  does not where the exact percentage ends in one half: with 23 of 40 votes the exact
  value is 57.5, which rounds to 58 (in exact arithmetic, and also when the formula is
  evaluated in binary64 as written), but the code divides first: the quotient 23 / 40 is
  rounded to binary64, its product with 100 is 57.49999999999999, and \<open>Math.round\<close>
  gives 57. The total, 40, and the other percentage, 43, are as claimed.
\<close>

theorem C3_tie_percentage_rounds_down:
  "getPollResultsInternal store_23_17 ''T'' =
     Some \<lparr>pr_pollId = ''T'', pr_question = ''Tie?'', pr_totalVotes = 40,
           pr_options = [\<lparr>or_id = ''A'', or_text = ''Alpha'', or_voteCount = 23, or_percentage = 57\<rparr>,
                         \<lparr>or_id = ''B'', or_text = ''Beta'', or_voteCount = 17, or_percentage = 43\<rparr>]\<rparr>
   \<and> round (100 * 23 / 40 :: rat) = 58
   \<and> Math_round (js_div (js_mul 100 23) 40) = 58"
proof -
  have "round (100 * 23 / 40 :: rat) = 58"
    unfolding round_def by (rule floor_unique) simp_all
  then show ?thesis using results_23_17 spec_formula_23_40 by simp
qed

section \<open>The payload of a broadcast\<close>

lemma find_option_id: "find_option s oid = Some opt \<Longrightarrow> option_id opt = oid"
  by (auto simp: find_option_def find_Some_iff)

lemma established_mono:
  assumes "polls s' = polls s" and "pollOptions s' = pollOptions s"
    and "set (votes s) \<subseteq> set (votes s')" and "established s req pc"
  shows "established s' req pc"
  using assms by (cases pc) (auto simp: find_poll_def find_option_def)

lemma vote_create_fields:
  assumes "vote_create uq s new_id now uid (JStr oid) = Inr (c, s')"
  shows "vote_userId (cv_vote c) = uid" "vote_pollOptionId (cv_vote c) = oid"
    "s' = s\<lparr>votes := votes s @ [cv_vote c]\<rparr>"
  using assms
  by (auto simp: vote_create_def Let_def split: if_splits option.splits)

lemma established_step:
  assumes est: "established (db w) req pc" and adv: "advance uq req pc w = (pc', w')"
  shows "established (db w') req pc' \<and> users (db w') = users (db w) \<and>
         polls (db w') = polls (db w) \<and> pollOptions (db w') = pollOptions (db w) \<and>
         set (votes (db w)) \<subseteq> set (votes (db w'))"
proof (cases pc)
  case AtFindOption
  show ?thesis
  proof (cases "falsy (map_of (req_body req) ''pollOptionId'')")
    case True
    with adv AtFindOption show ?thesis by auto
  next
    case False
    then obtain j where j: "map_of (req_body req) ''pollOptionId'' = Some j"
      by (cases "map_of (req_body req) ''pollOptionId''") auto
    show ?thesis
    proof (cases "pollOption_findUnique (db w) j")
      case (Inl e)
      with adv AtFindOption False j show ?thesis by auto
    next
      case (Inr found)
      show ?thesis
      proof (cases found)
        case None
        with adv AtFindOption False j Inr show ?thesis by auto
      next
        case (Some op)
        obtain opt p where op: "op = (opt, p)" by (cases op)
        from Inr Some op obtain oid where oid: "j = JStr oid"
          and fo: "find_option (db w) oid = Some opt"
          and fp: "find_poll (db w) (option_pollId opt) = Some p"
          by (auto simp: pollOption_findUnique_def split: json.splits option.splits)
        have "option_id opt = oid" using fo by (rule find_option_id)
        with adv AtFindOption False j Inr Some op oid fo fp show ?thesis
          by (auto split: if_splits)
      qed
    qed
  qed
next
  case (AtFindVote opt p)
  with adv est show ?thesis by (auto split: option.splits)
next
  case (AtCreate opt p)
  from est AtCreate have body: "map_of (req_body req) ''pollOptionId'' = Some (JStr (option_id opt))"
    and fo: "find_option (db w) (option_id opt) = Some opt"
    and fp: "find_poll (db w) (option_pollId opt) = Some p" by simp_all
  show ?thesis
  proof (cases "vote_create uq (db w) (req_new_id req) (req_now req) (req_user_id req)
      (JStr (option_id opt))")
    case (Inl e)
    with adv AtCreate body show ?thesis by auto
  next
    case (Inr cs)
    obtain c s' where cs: "cs = (c, s')" by (cases cs)
    note f = vote_create_fields [OF Inr [unfolded cs]]
    from adv AtCreate body Inr cs have pc': "pc' = AtResults c opt p" and w': "w' = w\<lparr>db := s'\<rparr>"
      by simp_all
    show ?thesis
      using f body fo fp
      by (auto simp: pc' w' find_votes_update)
  qed
next
  case (AtResults v opt p)
  with adv est show ?thesis by (auto simp: Let_def emit_to_room_simps)
next
  case (Done r)
  with adv est show ?thesis by auto
qed

lemma tallies_turn:
  assumes inv: "tallies_ok s0 reqs c"
  shows "tallies_ok s0 reqs (turn uq c i)"
proof (cases "i < length (snd c)")
  case False
  then show ?thesis using inv by (simp add: turn_def Let_def)
next
  case True
  define w where "w = fst c"
  define ps where "ps = snd c"
  define r where "r = fst (ps ! i)"
  define pc where "pc = snd (ps ! i)"
  define pc' where "pc' = fst (advance uq r pc w)"
  define w' where "w' = snd (advance uq r pc w)"
  have i: "i < length ps" using True by (simp add: ps_def)
  have adv: "advance uq r pc w = (pc', w')" by (simp add: pc'_def w'_def)
  have tn: "turn uq c i = (w', ps[i := (r, pc')])"
    using True by (simp add: turn_def Let_def w_def ps_def r_def pc_def pc'_def w'_def)
  from inv have st: "same_tables s0 (db w)" and rq: "map fst ps = reqs"
    and all: "list_all (\<lambda>p. established (db w) (fst p) (snd p)) ps"
    by (simp_all add: tallies_ok_def w_def ps_def)
  have est: "established (db w) r pc"
    using all i by (simp add: list_all_length r_def pc_def)
  note E = established_step [OF est adv]
  have st': "same_tables s0 (db w')" using st E by (simp add: same_tables_def)
  have rq': "map fst (ps[i := (r, pc')]) = reqs"
  proof -
    have "(map fst ps)[i := fst (ps ! i)] = map fst ps"
      using i by (simp add: list_update_same_conv)
    then show ?thesis using rq by (simp add: map_update r_def)
  qed
  have all': "list_all (\<lambda>p. established (db w') (fst p) (snd p)) (ps[i := (r, pc')])"
    unfolding list_all_length
  proof (intro allI impI)
    fix n
    assume n: "n < length (ps[i := (r, pc')])"
    show "established (db w') (fst (ps[i := (r, pc')] ! n)) (snd (ps[i := (r, pc')] ! n))"
    proof (cases "n = i")
      case True
      with i E show ?thesis by simp
    next
      case False
      have "established (db w) (fst (ps ! n)) (snd (ps ! n))"
        using all n by (simp add: list_all_length)
      then have "established (db w') (fst (ps ! n)) (snd (ps ! n))"
        using E by (intro established_mono [of "db w'" "db w"]) simp_all
      with False show ?thesis by simp
    qed
  qed
  show ?thesis
    unfolding tn tallies_ok_def using st' rq' all' by simp
qed

lemma tallies_run:
  assumes "tallies_ok s0 reqs c"
  shows "tallies_ok s0 reqs (run uq sched c)"
proof (induction sched rule: rev_induct)
  case Nil
  then show ?case using assms by (simp add: run_def)
next
  case (snoc i sched)
  show ?case unfolding run_snoc using snoc.IH by (rule tallies_turn)
qed

lemma tallies_start: "tallies_ok (db w) reqs (start w reqs)"
  by (simp add: tallies_ok_def start_def same_tables_def list_all_iff o_def)

lemma json_of_results_None: "json_of_results None = JNull"
  by (simp add: json_of_results_def)

lemma advance_emit_payload:
  assumes "advance uq req pc w = (pc', w')" and "emitted w' \<noteq> emitted w"
  shows "\<exists>v opt p. pc = AtResults v opt p \<and> db w' = db w \<and>
     emitted w' = emitted w @
       [(poll_room (poll_id p), ''pollUpdate'',
         JObj [(''pollId'', JStr (poll_id p)),
               (''results'', case find_poll (db w) (poll_id p) of
                               None \<Rightarrow> JNull | Some q \<Rightarrow> tally_json (db w) q)])]"
proof -
  from assms obtain v opt p where pc: "pc = AtResults v opt p"
    using advance_emits by blast
  have r: "json_of_results (getPollResultsInternal (db w) (poll_id p)) =
      (case find_poll (db w) (poll_id p) of None \<Rightarrow> JNull | Some q \<Rightarrow> tally_json (db w) q)"
  proof (cases "find_poll (db w) (poll_id p)")
    case None
    then show ?thesis by (simp add: getPollResultsInternal_eq json_of_results_None)
  next
    case (Some q)
    then show ?thesis using tally_json_eq [OF Some] by simp
  qed
  have "db w' = db w \<and> emitted w' = emitted w @
       [(poll_room (poll_id p), ''pollUpdate'',
         JObj [(''pollId'', JStr (poll_id p)),
               (''results'', case find_poll (db w) (poll_id p) of
                               None \<Rightarrow> JNull | Some q \<Rightarrow> tally_json (db w) q)])]"
    using assms(1) unfolding pc
    by (auto simp: Let_def emit_to_room_simps pollUpdate_payload_def r)
  then show ?thesis using pc by blast
qed

lemma submitVote_emit_payload:
  assumes "emitted (snd (submitVote uq req w)) \<noteq> emitted w"
  shows "\<exists>p v. find_poll (db w) (poll_id p) = Some p \<and>
     votes (db (snd (submitVote uq req w))) = votes (db w) @ [v] \<and>
     vote_userId v = req_user_id req \<and> vote_poll (db w) v = Some (poll_id p) \<and>
     emitted (snd (submitVote uq req w)) = emitted w @
       [(poll_room (poll_id p), ''pollUpdate'',
         JObj [(''pollId'', JStr (poll_id p)),
               (''results'', tally_json (db (snd (submitVote uq req w))) p)])]"
proof (cases rule: submitVote_cases [of uq req w])
  case (rejected r)
  with assms show ?thesis by simp
next
  case (accepted oid opt p c)
  have pid: "poll_id p = option_pollId opt" using accepted(3) by (rule find_poll_id)
  have fp: "find_poll (db w) (poll_id p) = Some p" using accepted(3) pid by simp
  note f = vote_create_fields [OF accepted(4)]
  have vp: "vote_poll (db w) (cv_vote c) = Some (poll_id p)"
    by (simp add: vote_poll_def f(2) accepted(2) pid)
  have fp': "find_poll ((db w)\<lparr>votes := votes (db w) @ [cv_vote c]\<rparr>) (poll_id p) = Some p"
    using fp by (simp add: find_votes_update)
  have "votes (db (snd (submitVote uq req w))) = votes (db w) @ [cv_vote c] \<and>
     emitted (snd (submitVote uq req w)) = emitted w @
       [(poll_room (poll_id p), ''pollUpdate'',
         JObj [(''pollId'', JStr (poll_id p)),
               (''results'', tally_json (db (snd (submitVote uq req w))) p)])]"
    using tally_json_eq [OF fp']
    by (simp add: accepted(5) emit_to_room_simps pollUpdate_payload_def)
  with fp f(1) vp show ?thesis by blast
qed

lemma run_emit_payload:
  assumes c: "c = run uq sched (start w reqs)"
    and e: "emitted (fst (turn uq c i)) \<noteq> emitted (fst c)"
  shows "\<exists>v opt p. i < length reqs \<and> snd c ! i = (reqs ! i, AtResults v opt p) \<and>
     find_poll (db (fst c)) (poll_id p) = Some p \<and>
     cv_vote v \<in> set (votes (db (fst c))) \<and>
     vote_userId (cv_vote v) = req_user_id (reqs ! i) \<and>
     vote_poll (db (fst c)) (cv_vote v) = Some (poll_id p) \<and>
     db (fst (turn uq c i)) = db (fst c) \<and>
     emitted (fst (turn uq c i)) = emitted (fst c) @
       [(poll_room (poll_id p), ''pollUpdate'',
         JObj [(''pollId'', JStr (poll_id p)), (''results'', tally_json (db (fst c)) p)])]"
proof -
  have inv: "tallies_ok (db w) reqs c"
    unfolding c using tallies_start by (rule tallies_run)
  have i: "i < length (snd c)"
    using e by (cases "i < length (snd c)") (simp_all add: turn_fst)
  have len: "length (snd c) = length reqs"
    by (simp add: c run_length start_def)
  define r where "r = fst (snd c ! i)"
  define pc where "pc = snd (snd c ! i)"
  have r: "r = reqs ! i"
  proof -
    have "map fst (snd c) ! i = reqs ! i" using inv by (simp add: tallies_ok_def)
    then show ?thesis using i by (simp add: r_def)
  qed
  have est: "established (db (fst c)) r pc"
    using inv i by (simp add: tallies_ok_def list_all_length r_def pc_def)
  have tf: "fst (turn uq c i) = snd (advance uq r pc (fst c))"
    using i by (simp add: turn_fst r_def pc_def)
  obtain pc' w' where adv: "advance uq r pc (fst c) = (pc', w')"
    by (cases "advance uq r pc (fst c)")
  from e have ne: "emitted w' \<noteq> emitted (fst c)" by (simp add: tf adv)
  from advance_emit_payload [OF adv ne] obtain v opt p where
    pc: "pc = AtResults v opt p" and dbw: "db w' = db (fst c)" and
    em: "emitted w' = emitted (fst c) @
       [(poll_room (poll_id p), ''pollUpdate'',
         JObj [(''pollId'', JStr (poll_id p)),
               (''results'', case find_poll (db (fst c)) (poll_id p) of
                               None \<Rightarrow> JNull | Some q \<Rightarrow> tally_json (db (fst c)) q)])]"
    by blast
  from est pc have fo: "find_option (db (fst c)) (option_id opt) = Some opt"
    and fp0: "find_poll (db (fst c)) (option_pollId opt) = Some p"
    and mem: "cv_vote v \<in> set (votes (db (fst c)))"
    and vu: "vote_userId (cv_vote v) = req_user_id r"
    and vo: "vote_pollOptionId (cv_vote v) = option_id opt" by simp_all
  have pid: "poll_id p = option_pollId opt" using fp0 by (rule find_poll_id)
  have fp: "find_poll (db (fst c)) (poll_id p) = Some p" using fp0 pid by simp
  have vp: "vote_poll (db (fst c)) (cv_vote v) = Some (poll_id p)"
    by (simp add: vote_poll_def vo fo pid)
  have nth: "snd c ! i = (reqs ! i, AtResults v opt p)"
    using r pc by (simp add: r_def pc_def prod_eq_iff)
  have em': "emitted (fst (turn uq c i)) = emitted (fst c) @
       [(poll_room (poll_id p), ''pollUpdate'',
         JObj [(''pollId'', JStr (poll_id p)), (''results'', tally_json (db (fst c)) p)])]"
    using em fp by (simp add: tf adv)
  have db': "db (fst (turn uq c i)) = db (fst c)" using dbw by (simp add: tf adv)
  have il: "i < length reqs" using i len by simp
  show ?thesis
    using il nth fp mem vu [unfolded r] vp db' em' by blast
qed

text \<open>
  C5 (amended). Every broadcast of \<open>submitVote\<close> is a \<open>pollUpdate\<close> event to the
  room of the poll with the payload \<open>{pollId, results}\<close>, where \<open>results\<close> is the
  tally \<open>{pollId, question, totalVotes, options: [{id, text, voteCount, percentage}]}\<close>
  of the store at the time of the tally query, the options in the order in which the
  store returns them. For the function run without interruption, that store is the one
  before the call with the voter's new vote appended. For a request in flight over any
  world, the step that broadcasts is the one after the insert, it leaves the store as it
  is, and \<open>results\<close> is \<open>null\<close> when the poll is no longer in the store. In every
  interleaving of any requests that start in one world, a broadcast carries the tally of
  a poll that is in the store, computed from a store that holds the vote which the
  broadcasting request inserted for an option of that poll.
\<close>

theorem C5_broadcast_payload:
  "(emitted (snd (submitVote uq req w)) \<noteq> emitted w \<longrightarrow>
      (\<exists>p v. find_poll (db w) (poll_id p) = Some p \<and>
         votes (db (snd (submitVote uq req w))) = votes (db w) @ [v] \<and>
         vote_userId v = req_user_id req \<and> vote_poll (db w) v = Some (poll_id p) \<and>
         emitted (snd (submitVote uq req w)) = emitted w @
           [(poll_room (poll_id p), ''pollUpdate'',
             JObj [(''pollId'', JStr (poll_id p)),
                   (''results'', tally_json (db (snd (submitVote uq req w))) p)])]))
   \<and> (\<forall>pc pc' w'. advance uq req pc w = (pc', w') \<and> emitted w' \<noteq> emitted w \<longrightarrow>
      (\<exists>v opt p. pc = AtResults v opt p \<and> db w' = db w \<and>
         emitted w' = emitted w @
           [(poll_room (poll_id p), ''pollUpdate'',
             JObj [(''pollId'', JStr (poll_id p)),
                   (''results'', case find_poll (db w) (poll_id p) of
                                   None \<Rightarrow> JNull | Some q \<Rightarrow> tally_json (db w) q)])]))
   \<and> (\<forall>sched i c. c = run uq sched (start w reqs) \<and>
          emitted (fst (turn uq c i)) \<noteq> emitted (fst c) \<longrightarrow>
      (\<exists>v opt p. i < length reqs \<and> snd c ! i = (reqs ! i, AtResults v opt p) \<and>
         find_poll (db (fst c)) (poll_id p) = Some p \<and>
         cv_vote v \<in> set (votes (db (fst c))) \<and>
         vote_userId (cv_vote v) = req_user_id (reqs ! i) \<and>
         vote_poll (db (fst c)) (cv_vote v) = Some (poll_id p) \<and>
         db (fst (turn uq c i)) = db (fst c) \<and>
         emitted (fst (turn uq c i)) = emitted (fst c) @
           [(poll_room (poll_id p), ''pollUpdate'',
             JObj [(''pollId'', JStr (poll_id p)),
                   (''results'', tally_json (db (fst c)) p)])]))"
proof -
  have c1: "emitted (snd (submitVote uq req w)) \<noteq> emitted w \<longrightarrow>
      (\<exists>p v. find_poll (db w) (poll_id p) = Some p \<and>
         votes (db (snd (submitVote uq req w))) = votes (db w) @ [v] \<and>
         vote_userId v = req_user_id req \<and> vote_poll (db w) v = Some (poll_id p) \<and>
         emitted (snd (submitVote uq req w)) = emitted w @
           [(poll_room (poll_id p), ''pollUpdate'',
             JObj [(''pollId'', JStr (poll_id p)),
                   (''results'', tally_json (db (snd (submitVote uq req w))) p)])])"
    using submitVote_emit_payload [of uq req w] by (rule impI)
  have c2: "\<forall>pc pc' w'. advance uq req pc w = (pc', w') \<and> emitted w' \<noteq> emitted w \<longrightarrow>
      (\<exists>v opt p. pc = AtResults v opt p \<and> db w' = db w \<and>
         emitted w' = emitted w @
           [(poll_room (poll_id p), ''pollUpdate'',
             JObj [(''pollId'', JStr (poll_id p)),
                   (''results'', case find_poll (db w) (poll_id p) of
                                   None \<Rightarrow> JNull | Some q \<Rightarrow> tally_json (db w) q)])])"
  proof (intro allI impI)
    fix pc pc' w'
    assume "advance uq req pc w = (pc', w') \<and> emitted w' \<noteq> emitted w"
    then have "advance uq req pc w = (pc', w')" and "emitted w' \<noteq> emitted w" by simp_all
    then show "\<exists>v opt p. pc = AtResults v opt p \<and> db w' = db w \<and>
         emitted w' = emitted w @
           [(poll_room (poll_id p), ''pollUpdate'',
             JObj [(''pollId'', JStr (poll_id p)),
                   (''results'', case find_poll (db w) (poll_id p) of
                                   None \<Rightarrow> JNull | Some q \<Rightarrow> tally_json (db w) q)])]"
      by (rule advance_emit_payload)
  qed
  have c3: "\<forall>sched i c. c = run uq sched (start w reqs) \<and>
          emitted (fst (turn uq c i)) \<noteq> emitted (fst c) \<longrightarrow>
      (\<exists>v opt p. i < length reqs \<and> snd c ! i = (reqs ! i, AtResults v opt p) \<and>
         find_poll (db (fst c)) (poll_id p) = Some p \<and>
         cv_vote v \<in> set (votes (db (fst c))) \<and>
         vote_userId (cv_vote v) = req_user_id (reqs ! i) \<and>
         vote_poll (db (fst c)) (cv_vote v) = Some (poll_id p) \<and>
         db (fst (turn uq c i)) = db (fst c) \<and>
         emitted (fst (turn uq c i)) = emitted (fst c) @
           [(poll_room (poll_id p), ''pollUpdate'',
             JObj [(''pollId'', JStr (poll_id p)),
                   (''results'', tally_json (db (fst c)) p)])])"
  proof (intro allI impI)
    fix sched i c
    assume "c = run uq sched (start w reqs) \<and>
          emitted (fst (turn uq c i)) \<noteq> emitted (fst c)"
    then have "c = run uq sched (start w reqs)"
      and "emitted (fst (turn uq c i)) \<noteq> emitted (fst c)" by blast+
    then show "\<exists>v opt p. i < length reqs \<and> snd c ! i = (reqs ! i, AtResults v opt p) \<and>
         find_poll (db (fst c)) (poll_id p) = Some p \<and>
         cv_vote v \<in> set (votes (db (fst c))) \<and>
         vote_userId (cv_vote v) = req_user_id (reqs ! i) \<and>
         vote_poll (db (fst c)) (cv_vote v) = Some (poll_id p) \<and>
         db (fst (turn uq c i)) = db (fst c) \<and>
         emitted (fst (turn uq c i)) = emitted (fst c) @
           [(poll_room (poll_id p), ''pollUpdate'',
             JObj [(''pollId'', JStr (poll_id p)),
                   (''results'', tally_json (db (fst c)) p)])]"
      by (rule run_emit_payload)
  qed
  show ?thesis by (rule conjI [OF c1 conjI [OF c2 c3]])
qed

subsection \<open>Examples of broadcasts\<close>

lemma place_update:
  "find_option (s\<lparr>row_place := f\<rparr>) oid = find_option s oid"
  "find_poll (s\<lparr>row_place := f\<rparr>) pid = find_poll s pid"
  "find_user (s\<lparr>row_place := f\<rparr>) uid = find_user s uid"
  "vote_poll (s\<lparr>row_place := f\<rparr>) v = vote_poll s v"
  "count_votes (s\<lparr>row_place := f\<rparr>) oid = count_votes s oid"
  "options_created (s\<lparr>row_place := f\<rparr>) pid = options_created s pid"
  by (simp_all add: find_option_def find_poll_def find_user_def vote_poll_def count_votes_def
      options_created_def)

lemma store_moved_facts:
  "poll_options (store_moved\<lparr>votes := vs\<rparr>) ''P'' = [optC, optB, optA]"
  "options_created store_moved ''P'' = [optA, optB, optC]"
  "votes store_moved = []"
  by (simp_all add: store_moved_def store0_def poll_options_def options_created_def
      optA_def optB_def optC_def optD_def optE_def)

lemma example_first_vote_moved:
  "submitVote unique_voter_poll (vote_request ''X'' ''A'' ''v1'') (world_of store_moved) =
     (accepted_response first_vote,
      emit_to_room ''poll-P'' ''pollUpdate''
        (pollUpdate_payload ''P''
           (getPollResultsInternal (store_moved\<lparr>votes := [mk_vote ''v1'' ''X'' ''A'']\<rparr>) ''P''))
        ((world_of store_moved)\<lparr>db := store_moved\<lparr>votes := [mk_vote ''v1'' ''X'' ''A'']\<rparr>\<rparr>))"
proof -
  have vc: "vote_create unique_voter_poll store_moved ''v1'' ''2025-01-01T00:00:00.000Z'' ''X''
      (JStr ''A'') = Inr (first_vote, store_moved\<lparr>votes := [mk_vote ''v1'' ''X'' ''A'']\<rparr>)"
    by (simp add: vote_create_def store_moved_facts store_moved_def place_update store0_users
        store0_options store0_polls store0_votes example_fields first_vote_def mk_vote_def Let_def)
  show ?thesis
    by (simp add: submitVote_string_id vote_request_simps world_of_simps store_moved_def
        place_update store0_options store0_polls store0_votes example_fields vote_findFirst_def
        vc [unfolded store_moved_def] vote_request_def poll_room_def)
qed

lemma tally_moved:
  "tally_json (store_moved\<lparr>votes := [mk_vote ''v1'' ''X'' ''A'']\<rparr>) pollP =
     JObj [(''pollId'', JStr ''P''), (''question'', JStr ''Which one?''),
           (''totalVotes'', JNum 1),
           (''options'',
            JArr [JObj [(''id'', JStr ''C''), (''text'', JStr ''Gamma''),
                        (''voteCount'', JNum 0), (''percentage'', JNum 0)],
                  JObj [(''id'', JStr ''B''), (''text'', JStr ''Beta''),
                        (''voteCount'', JNum 0), (''percentage'', JNum 0)],
                  JObj [(''id'', JStr ''A''), (''text'', JStr ''Alpha''),
                        (''voteCount'', JNum 1), (''percentage'', JNum 100)]])]"
proof -
  have p1: "Math_round (js_mul (js_div 1 1) 100) = 100"
    using percentage_1_1 by (simp add: percentage_def)
  have p0: "Math_round (js_mul (js_div 0 1) 100) = 0"
    using percentage_0_1 by (simp add: percentage_def)
  have cv: "count_votes (store_moved\<lparr>votes := [mk_vote ''v1'' ''X'' ''A'']\<rparr>) ''A'' = Suc 0"
    "count_votes (store_moved\<lparr>votes := [mk_vote ''v1'' ''X'' ''A'']\<rparr>) ''B'' = 0"
    "count_votes (store_moved\<lparr>votes := [mk_vote ''v1'' ''X'' ''A'']\<rparr>) ''C'' = 0"
    by (simp_all add: count_votes_def mk_vote_def)
  show ?thesis
    by (simp add: example_fields store_moved_facts cv small_counts number_zero p1 p0)
       (simp add: pollP_def optA_def optB_def optC_def)
qed

lemma moved_finds:
  "find_option (store_moved\<lparr>votes := vs\<rparr>) = find_option store0"
  "find_poll (store_moved\<lparr>votes := vs\<rparr>) = find_poll store0"
  "find_user (store_moved\<lparr>votes := vs\<rparr>) = find_user store0"
  "vote_poll (store_moved\<lparr>votes := vs\<rparr>) = vote_poll store0"
  "find_option store_moved = find_option store0"
  "find_poll store_moved = find_poll store0"
  "find_user store_moved = find_user store0"
  "vote_poll store_moved = vote_poll store0"
  by (simp_all add: store_moved_def find_option_def find_poll_def find_user_def vote_poll_def
      fun_eq_iff)

lemma example_vote_B_moved:
  "submitVote unique_voter_poll (vote_request ''Y'' ''B'' ''v2'') (world_of store_moved) =
     (accepted_response second_vote,
      emit_to_room ''poll-P'' ''pollUpdate''
        (pollUpdate_payload ''P''
           (getPollResultsInternal (store_moved\<lparr>votes := [mk_vote ''v2'' ''Y'' ''B'']\<rparr>) ''P''))
        ((world_of store_moved)\<lparr>db := store_moved\<lparr>votes := [mk_vote ''v2'' ''Y'' ''B'']\<rparr>\<rparr>))"
proof -
  have vc: "vote_create unique_voter_poll store_moved ''v2'' ''2025-01-01T00:00:00.000Z'' ''Y''
      (JStr ''B'') = Inr (second_vote, store_moved\<lparr>votes := [mk_vote ''v2'' ''Y'' ''B'']\<rparr>)"
    by (simp add: vote_create_def store_moved_facts moved_finds store0_users
        store0_options store0_polls example_fields second_vote_def mk_vote_def Let_def)
  show ?thesis
    by (simp add: submitVote_string_id vote_request_simps world_of_simps moved_finds
        store_moved_facts store0_options store0_polls example_fields vote_findFirst_def
        vc vote_request_def poll_room_def)
qed

lemma tally_vote_B_moved:
  "tally_json (store_moved\<lparr>votes := [mk_vote ''v2'' ''Y'' ''B'']\<rparr>) pollP =
     JObj [(''pollId'', JStr ''P''), (''question'', JStr ''Which one?''),
           (''totalVotes'', JNum 1),
           (''options'',
            JArr [JObj [(''id'', JStr ''C''), (''text'', JStr ''Gamma''),
                        (''voteCount'', JNum 0), (''percentage'', JNum 0)],
                  JObj [(''id'', JStr ''B''), (''text'', JStr ''Beta''),
                        (''voteCount'', JNum 1), (''percentage'', JNum 100)],
                  JObj [(''id'', JStr ''A''), (''text'', JStr ''Alpha''),
                        (''voteCount'', JNum 0), (''percentage'', JNum 0)]])]"
proof -
  have p1: "Math_round (js_mul (js_div 1 1) 100) = 100"
    using percentage_1_1 by (simp add: percentage_def)
  have p0: "Math_round (js_mul (js_div 0 1) 100) = 0"
    using percentage_0_1 by (simp add: percentage_def)
  have a: "js_add 1 0 = 1" using fl_of_nat_exact [of 1] by (simp add: js_add_def)
  have cv: "count_votes (store_moved\<lparr>votes := [mk_vote ''v2'' ''Y'' ''B'']\<rparr>) ''B'' = Suc 0"
    "count_votes (store_moved\<lparr>votes := [mk_vote ''v2'' ''Y'' ''B'']\<rparr>) ''A'' = 0"
    "count_votes (store_moved\<lparr>votes := [mk_vote ''v2'' ''Y'' ''B'']\<rparr>) ''C'' = 0"
    by (simp_all add: count_votes_def mk_vote_def)
  show ?thesis
    by (simp add: example_fields store_moved_facts cv small_counts number_zero p1 p0 a)
       (simp add: pollP_def optA_def optB_def optC_def)
qed

lemma example_two_in_flight:
  "run unique_voter_poll [0, 1, 0, 1, 0, 1]
     (start (world_of store_moved)
        [vote_request ''X'' ''A'' ''v1'', vote_request ''Y'' ''B'' ''v2'']) =
   ((world_of store_moved)\<lparr>db :=
       store_moved\<lparr>votes := [mk_vote ''v1'' ''X'' ''A'', mk_vote ''v2'' ''Y'' ''B'']\<rparr>\<rparr>,
    [(vote_request ''X'' ''A'' ''v1'', AtResults first_vote optA pollP),
     (vote_request ''Y'' ''B'' ''v2'', AtResults second_vote optB pollP)])"
  by (simp add: start_def run_simps turn_simps turn_numeral world_of_simps vote_request_simps
      pollOption_findUnique_def moved_finds store_moved_facts store0_options store0_polls
      store0_users example_fields vote_findFirst_def vote_create_def
      unique_voter_poll_def Let_def first_vote_def second_vote_def mk_vote_def
      vote_request_def)

lemma tally_two_moved:
  "tally_json (store_moved\<lparr>votes := [mk_vote ''v1'' ''X'' ''A'', mk_vote ''v2'' ''Y'' ''B'']\<rparr>)
     pollP =
     JObj [(''pollId'', JStr ''P''), (''question'', JStr ''Which one?''),
           (''totalVotes'', JNum 2),
           (''options'',
            JArr [JObj [(''id'', JStr ''C''), (''text'', JStr ''Gamma''),
                        (''voteCount'', JNum 0), (''percentage'', JNum 0)],
                  JObj [(''id'', JStr ''B''), (''text'', JStr ''Beta''),
                        (''voteCount'', JNum 1), (''percentage'', JNum 50)],
                  JObj [(''id'', JStr ''A''), (''text'', JStr ''Alpha''),
                        (''voteCount'', JNum 1), (''percentage'', JNum 50)]])]"
proof -
  have p1: "Math_round (js_mul (js_div 1 2) 100) = 50"
    using percentage_1_2 by (simp add: percentage_def)
  have p0: "Math_round (js_mul (js_div 0 2) 100) = 0"
    using percentage_0 [of 2] by (simp add: percentage_def)
  have cv: "count_votes (store_moved\<lparr>votes := [mk_vote ''v1'' ''X'' ''A'',
        mk_vote ''v2'' ''Y'' ''B'']\<rparr>) ''A'' = Suc 0"
    "count_votes (store_moved\<lparr>votes := [mk_vote ''v1'' ''X'' ''A'',
        mk_vote ''v2'' ''Y'' ''B'']\<rparr>) ''B'' = Suc 0"
    "count_votes (store_moved\<lparr>votes := [mk_vote ''v1'' ''X'' ''A'',
        mk_vote ''v2'' ''Y'' ''B'']\<rparr>) ''C'' = 0"
    by (simp_all add: count_votes_def mk_vote_def)
  show ?thesis
    by (simp add: example_fields store_moved_facts cv small_counts number_zero p1 p0)
       (simp add: pollP_def optA_def optB_def optC_def)
qed

text \<open>
  C5 (amended), in a store that returns the options of \<open>P\<close> as \<open>C\<close>, \<open>B\<close>, \<open>A\<close>:
  at \<open>Y\<close>'s vote for \<open>B\<close>; at the broadcasting step of a request when the poll was
  deleted after the insert; and at the requests of \<open>X\<close> for \<open>A\<close> and of \<open>Y\<close> for
  \<open>B\<close> in flight together, both past their insert: the broadcast of \<open>X\<close>'s request
  carries both votes.
\<close>

theorem C5_broadcast_payload_witness:
  "map option_id (poll_options store_moved ''P'') = [''C'', ''B'', ''A'']
   \<and> emitted (snd (submitVote unique_voter_poll (vote_request ''Y'' ''B'' ''v2'')
        (world_of store_moved))) \<noteq> emitted (world_of store_moved)
   \<and> emitted (snd (submitVote unique_voter_poll (vote_request ''Y'' ''B'' ''v2'')
        (world_of store_moved))) =
     [(''poll-P'', ''pollUpdate'',
       JObj [(''pollId'', JStr ''P''),
             (''results'',
              JObj [(''pollId'', JStr ''P''), (''question'', JStr ''Which one?''),
                    (''totalVotes'', JNum 1),
                    (''options'',
                     JArr [JObj [(''id'', JStr ''C''), (''text'', JStr ''Gamma''),
                                 (''voteCount'', JNum 0), (''percentage'', JNum 0)],
                           JObj [(''id'', JStr ''B''), (''text'', JStr ''Beta''),
                                 (''voteCount'', JNum 1), (''percentage'', JNum 100)],
                           JObj [(''id'', JStr ''A''), (''text'', JStr ''Alpha''),
                                 (''voteCount'', JNum 0), (''percentage'', JNum 0)]])])])]
   \<and> emitted (snd (advance unique_voter_poll (vote_request ''X'' ''A'' ''v1'')
        (AtResults first_vote optA pollP) (world_of store_gone))) =
     [(''poll-P'', ''pollUpdate'', JObj [(''pollId'', JStr ''P''), (''results'', JNull)])]
   \<and> snd (run unique_voter_poll [0, 1, 0, 1, 0, 1]
        (start (world_of store_moved)
           [vote_request ''X'' ''A'' ''v1'', vote_request ''Y'' ''B'' ''v2''])) =
     [(vote_request ''X'' ''A'' ''v1'', AtResults first_vote optA pollP),
      (vote_request ''Y'' ''B'' ''v2'', AtResults second_vote optB pollP)]
   \<and> emitted (fst (turn unique_voter_poll
        (run unique_voter_poll [0, 1, 0, 1, 0, 1]
           (start (world_of store_moved)
              [vote_request ''X'' ''A'' ''v1'', vote_request ''Y'' ''B'' ''v2''])) 0)) =
     [(''poll-P'', ''pollUpdate'',
       JObj [(''pollId'', JStr ''P''),
             (''results'',
              JObj [(''pollId'', JStr ''P''), (''question'', JStr ''Which one?''),
                    (''totalVotes'', JNum 2),
                    (''options'',
                     JArr [JObj [(''id'', JStr ''C''), (''text'', JStr ''Gamma''),
                                 (''voteCount'', JNum 0), (''percentage'', JNum 0)],
                           JObj [(''id'', JStr ''B''), (''text'', JStr ''Beta''),
                                 (''voteCount'', JNum 1), (''percentage'', JNum 50)],
                           JObj [(''id'', JStr ''A''), (''text'', JStr ''Alpha''),
                                 (''voteCount'', JNum 1), (''percentage'', JNum 50)]])])])]"
proof -
  define rX where "rX = vote_request ''X'' ''A'' ''v1''"
  define rY where "rY = vote_request ''Y'' ''B'' ''v2''"
  define s2 where "s2 = store_moved\<lparr>votes := [mk_vote ''v1'' ''X'' ''A'', mk_vote ''v2'' ''Y'' ''B'']\<rparr>"
  define c where "c = run unique_voter_poll [0, 1, 0, 1, 0, 1] (start (world_of store_moved) [rX, rY])"
  define wg where "wg = snd (advance unique_voter_poll rX (AtResults first_vote optA pollP)
      (world_of store_gone))"
  note t = C5_broadcast_payload [of unique_voter_poll rY "world_of store_moved" "[rX, rY]"]
  note tg = C5_broadcast_payload [of unique_voter_poll rX "world_of store_gone" "[rX, rY]"]
  have poll_P: "p = pollP" if "find_poll store_moved (poll_id p) = Some p"
      and "poll_room (poll_id p) = ''poll-P''" for p
  proof -
    have "poll_id p = ''P''" using that(2) by (simp add: poll_room_def)
    with that(1) show ?thesis by (simp add: moved_finds store0_polls)
  qed
  have ev: "submitVote unique_voter_poll rY (world_of store_moved) =
     (accepted_response second_vote,
      emit_to_room ''poll-P'' ''pollUpdate''
        (pollUpdate_payload ''P''
           (getPollResultsInternal (store_moved\<lparr>votes := [mk_vote ''v2'' ''Y'' ''B'']\<rparr>) ''P''))
        ((world_of store_moved)\<lparr>db := store_moved\<lparr>votes := [mk_vote ''v2'' ''Y'' ''B'']\<rparr>\<rparr>))"
    unfolding rY_def by (rule example_vote_B_moved)
  have h1: "emitted (snd (submitVote unique_voter_poll rY (world_of store_moved))) \<noteq>
     emitted (world_of store_moved)"
    by (simp add: ev emit_to_room_simps world_of_simps)
  from t [THEN conjunct1, rule_format, OF h1] obtain p v where
    fp: "find_poll (db (world_of store_moved)) (poll_id p) = Some p" and
    em: "emitted (snd (submitVote unique_voter_poll rY (world_of store_moved))) =
      emitted (world_of store_moved) @
       [(poll_room (poll_id p), ''pollUpdate'',
         JObj [(''pollId'', JStr (poll_id p)),
               (''results'', tally_json (db (snd (submitVote unique_voter_poll rY
                   (world_of store_moved)))) p)])]"
    by blast
  have "poll_room (poll_id p) = ''poll-P''"
    using em by (simp add: ev emit_to_room_simps world_of_simps)
  with fp have p: "p = pollP" by (intro poll_P) (simp_all add: world_of_simps)
  have c1: "emitted (snd (submitVote unique_voter_poll rY (world_of store_moved))) =
     [(''poll-P'', ''pollUpdate'',
       JObj [(''pollId'', JStr ''P''),
             (''results'', tally_json (store_moved\<lparr>votes := [mk_vote ''v2'' ''Y'' ''B'']\<rparr>) pollP)])]"
  proof -
    have "db (snd (submitVote unique_voter_poll rY (world_of store_moved))) =
        store_moved\<lparr>votes := [mk_vote ''v2'' ''Y'' ''B'']\<rparr>"
      by (simp add: ev emit_to_room_simps)
    with em [unfolded p] show ?thesis
      by (simp add: world_of_simps poll_room_def example_fields)
  qed
  have adv: "advance unique_voter_poll rX (AtResults first_vote optA pollP) (world_of store_gone) =
      (Done (accepted_response first_vote), wg)"
    by (simp add: wg_def Let_def)
  have h2: "emitted wg \<noteq> emitted (world_of store_gone)"
    by (simp add: wg_def Let_def emit_to_room_simps)
  have gone: "find_poll (db (world_of store_gone)) ''P'' = None"
    by (simp add: world_of_simps store_gone_def find_poll_def pollQ_def)
  from tg [THEN conjunct2, THEN conjunct1, rule_format,
      of "AtResults first_vote optA pollP" "Done (accepted_response first_vote)" wg]
    adv h2
  obtain v' opt' p' where "AtResults first_vote optA pollP = AtResults v' opt' p'"
    and em2: "emitted wg = emitted (world_of store_gone) @
           [(poll_room (poll_id p'), ''pollUpdate'',
             JObj [(''pollId'', JStr (poll_id p')),
                   (''results'', case find_poll (db (world_of store_gone)) (poll_id p') of
                                   None \<Rightarrow> JNull
                                 | Some q \<Rightarrow> tally_json (db (world_of store_gone)) q)])]"
    by blast
  then have p': "p' = pollP" by simp
  have c2: "emitted wg =
     [(''poll-P'', ''pollUpdate'', JObj [(''pollId'', JStr ''P''), (''results'', JNull)])]"
    using em2 gone unfolding p'
    by (simp add: example_fields world_of_simps poll_room_def)
  have cv: "c = ((world_of store_moved)\<lparr>db := s2\<rparr>,
    [(rX, AtResults first_vote optA pollP), (rY, AtResults second_vote optB pollP)])"
    unfolding c_def rX_def rY_def s2_def by (rule example_two_in_flight)
  have h3: "emitted (fst (turn unique_voter_poll c 0)) \<noteq> emitted (fst c)"
    by (simp add: cv turn_simps Let_def emit_to_room_simps)
  from t [THEN conjunct2, THEN conjunct2, rule_format, of c "[0, 1, 0, 1, 0, 1]" 0] h3
  obtain v3 opt3 p3 where nth: "snd c ! 0 = ([rX, rY] ! 0, AtResults v3 opt3 p3)"
    and em3: "emitted (fst (turn unique_voter_poll c 0)) = emitted (fst c) @
           [(poll_room (poll_id p3), ''pollUpdate'',
             JObj [(''pollId'', JStr (poll_id p3)),
                   (''results'', tally_json (db (fst c)) p3)])]"
    unfolding c_def by blast
  from nth have p3: "p3 = pollP" by (simp add: cv)
  have c3: "emitted (fst (turn unique_voter_poll c 0)) =
     [(''poll-P'', ''pollUpdate'',
       JObj [(''pollId'', JStr ''P''), (''results'', tally_json s2 pollP)])]"
    using em3 unfolding p3
    by (simp add: cv world_of_simps poll_room_def example_fields)
  have c4: "snd c = [(rX, AtResults first_vote optA pollP), (rY, AtResults second_vote optB pollP)]"
    by (simp add: cv)
  have o: "map option_id (poll_options store_moved ''P'') = [''C'', ''B'', ''A'']"
    using store_moved_facts(1) [of "[]"]
    by (simp add: store_moved_def store0_def example_fields)
  show ?thesis
    using o h1 c1 [unfolded tally_vote_B_moved] c2 c3 [unfolded s2_def tally_two_moved] c4
    unfolding c_def wg_def rX_def rY_def
    by blast
qed

text \<open>
  C5 as stated fails twice. The payload of the broadcast has the keys \<open>pollId\<close> and
  \<open>results\<close>; the tally is the value of \<open>results\<close>. And the options are in the order
  in which the store returns them: here \<open>C\<close>, \<open>B\<close>, \<open>A\<close>, while they were created
  as \<open>A\<close>, \<open>B\<close>, \<open>C\<close>.
\<close>

theorem C5_payload_wrapped_and_reordered:
  "map option_id (poll_options store_moved ''P'') = [''C'', ''B'', ''A'']
   \<and> emitted (snd (submitVote unique_voter_poll (vote_request ''X'' ''A'' ''v1'')
      (world_of store_moved))) =
     [(''poll-P'', ''pollUpdate'',
       JObj [(''pollId'', JStr ''P''),
             (''results'',
              JObj [(''pollId'', JStr ''P''), (''question'', JStr ''Which one?''),
                    (''totalVotes'', JNum 1),
                    (''options'',
                     JArr [JObj [(''id'', JStr ''C''), (''text'', JStr ''Gamma''),
                                 (''voteCount'', JNum 0), (''percentage'', JNum 0)],
                           JObj [(''id'', JStr ''B''), (''text'', JStr ''Beta''),
                                 (''voteCount'', JNum 0), (''percentage'', JNum 0)],
                           JObj [(''id'', JStr ''A''), (''text'', JStr ''Alpha''),
                                 (''voteCount'', JNum 1), (''percentage'', JNum 100)]])])])]
   \<and> map option_id (options_created store_moved ''P'') = [''A'', ''B'', ''C'']"
proof -
  have fp: "find_poll (store_moved\<lparr>votes := [mk_vote ''v1'' ''X'' ''A'']\<rparr>) ''P'' = Some pollP"
    by (simp add: store_moved_def find_votes_update place_update store0_polls)
  have "pollUpdate_payload ''P''
      (getPollResultsInternal (store_moved\<lparr>votes := [mk_vote ''v1'' ''X'' ''A'']\<rparr>) ''P'') =
    JObj [(''pollId'', JStr ''P''),
          (''results'', tally_json (store_moved\<lparr>votes := [mk_vote ''v1'' ''X'' ''A'']\<rparr>) pollP)]"
    unfolding pollUpdate_payload_def tally_json_eq [OF fp] ..
  moreover have "poll_options store_moved ''P'' = [optC, optB, optA]"
    using store_moved_facts(1) [of "[]"] by (simp add: store_moved_def store0_def)
  ultimately show ?thesis
    unfolding tally_moved
    by (simp add: example_first_vote_moved emit_to_room_simps world_of_simps store_moved_facts
        example_fields)
qed

end
